theory Spec2Isabelle
  imports Main "HOL-Library.Word" "HOL-Library.Multiset" "HOL-Library.Disjoint_Sets"
begin

unbundle bit_operations_syntax

section \<open>Python values and errors\<close>

text \<open>
  The exceptions the modelled code can raise. \<open>ValueError\<close> is raised by \<open>Game.shift\<close> for a
  fixed row or column and by the \<open>Direction(...)\<close> constructor for a value that is no member
  of the flag; \<open>IndexError\<close> by an out-of-range subscript or a \<open>pop\<close> from an empty list;
  \<open>AttributeError\<close> by \<open>rotate\<close> on a plain list and by \<open>.path\<close> on \<open>None\<close>;
  \<open>RecursionError\<close> by a call beyond the interpreter's recursion limit.
\<close>

datatype error = ValueError | IndexError | AttributeError | RecursionError

text \<open>
  Subscripts of Python sequences: a negative index counts from the end, and an index
  outside \<open>-n .. n-1\<close> raises \<open>IndexError\<close>.
\<close>

definition py_index :: "nat \<Rightarrow> int \<Rightarrow> error + nat" where
  "py_index n i =
     (let k = (if i < 0 then i + int n else i)
      in if 0 \<le> k \<and> k < int n then Inr (nat k) else Inl IndexError)"

definition py_get :: "'a list \<Rightarrow> int \<Rightarrow> error + 'a" where
  "py_get xs i = (case py_index (length xs) i of Inl e \<Rightarrow> Inl e | Inr k \<Rightarrow> Inr (xs ! k))"

definition py_set :: "'a list \<Rightarrow> int \<Rightarrow> 'a \<Rightarrow> error + 'a list" where
  "py_set xs i v = (case py_index (length xs) i of Inl e \<Rightarrow> Inl e | Inr k \<Rightarrow> Inr (xs[k := v]))"

text \<open>\<open>list.pop()\<close>: removes and returns the last element.\<close>

definition pop :: "'a list \<Rightarrow> error + ('a \<times> 'a list)" where
  "pop xs = (if xs = [] then Inl IndexError else Inr (last xs, butlast xs))"

text \<open>
  \<open>deque.rotate(n)\<close>: \<open>n\<close> steps to the right, to the left when \<open>n\<close> is negative
  (\<^const>\<open>rotate\<close> of the list library rotates to the left).
\<close>

definition deque_rotate :: "int \<Rightarrow> 'a list \<Rightarrow> 'a list" where
  "deque_rotate n xs = rotate (nat ((- n) mod int (length xs))) xs"

section \<open>Direction\<close>

text \<open>
  \<open>class Direction(Flag)\<close> with \<open>NORTH = 1\<close>, \<open>EAST = 2\<close>, \<open>SOUTH = 4\<close>, \<open>WEST = 8\<close> and a
  named member for every union up to \<open>NSEW = 15\<close>: its values are the sixteen 4-bit masks
  (\<open>Direction(0)\<close> is the empty flag). \<open>&\<close> is bitwise, and a flag is true iff it is not 0.
\<close>

type_synonym Direction = "4 word"

definition NORTH :: Direction where "NORTH = 1"
definition EAST :: Direction where "EAST = 2"
definition SOUTH :: Direction where "SOUTH = 4"
definition WEST :: Direction where "WEST = 8"
definition NE :: Direction where "NE = NORTH OR EAST"
definition NW :: Direction where "NW = NORTH OR WEST"
definition SE :: Direction where "SE = SOUTH OR EAST"
definition SW :: Direction where "SW = SOUTH OR WEST"
definition NS :: Direction where "NS = NORTH OR SOUTH"
definition EW :: Direction where "EW = EAST OR WEST"
definition NSE :: Direction where "NSE = NORTH OR SOUTH OR EAST"
definition NSW :: Direction where "NSW = NORTH OR SOUTH OR WEST"
definition NEW :: Direction where "NEW = NORTH OR EAST OR WEST"
definition SEW :: Direction where "SEW = SOUTH OR EAST OR WEST"
definition NSEW :: Direction where "NSEW = NORTH OR SOUTH OR EAST OR WEST"

text \<open>
  The constructor call \<open>Direction(v)\<close> on an integer: a value outside \<open>0..15\<close> is no
  member and raises \<open>ValueError\<close>.
\<close>

definition Direction_new :: "int \<Rightarrow> error + Direction" where
  "Direction_new v = (if 0 \<le> v \<and> v < 16 then Inr (word_of_int v) else Inl ValueError)"

text \<open>
  \<open>Direction.__lshift__\<close>: \<open>amount %= 4\<close> (Python's \<open>%\<close> with a positive divisor is HOL's
  \<open>mod\<close> on \<open>int\<close>), the shift is on the unbounded integer \<open>self.value\<close>, and
  \<open>rotated & 0xF | (rotated & 0xF0) >> 4\<close> parses as
  \<open>(rotated & 0xF) | ((rotated & 0xF0) >> 4)\<close>.
\<close>

definition lshift :: "Direction \<Rightarrow> int \<Rightarrow> error + Direction" where
  "lshift self amount =
     (let amount' = amount mod 4;
          rotated = push_bit (nat amount') (uint self)
      in Direction_new ((rotated AND 0xF) OR drop_bit 4 (rotated AND 0xF0)))"

text \<open>\<open>Direction.__rshift__\<close>.\<close>

definition rshift :: "Direction \<Rightarrow> int \<Rightarrow> error + Direction" where
  "rshift self amount = lshift self (- amount)"

section \<open>Tiles\<close>

datatype Quest =
  BAT | BOOK | CANDELABRA | DRAGON | EMERALD | GHOST | HELMET | SPIDER | GENIE | KEYS
  | LIZARD | MAP | CROWN | OWL | POUCH | GOBLIN | RING | SCARAB | CHEST | SKULL | WITCH
  | SWORD | MOUSE | MOTH

datatype Color = RED | YELLOW | BLUE | GREEN

text \<open>\<open>item: Union[Quest, Color, None]\<close>; \<open>None\<close> is the \<open>None\<close> of the option type.\<close>

datatype occupant = QuestItem Quest | ColorItem Color

record Tile =
  path :: Direction
  item :: "occupant option"

definition mk_Tile :: "Direction \<Rightarrow> occupant option \<Rightarrow> Tile" where
  "mk_Tile p it = \<lparr>path = p, item = it\<rparr>"

section \<open>The board\<close>

text \<open>
  \<open>Game.board\<close> is a list of seven rows; rows 0, 2, 4, 6 are plain lists and rows 1, 3, 5
  are deques. Both are subscripted the same way; only a deque has \<open>rotate\<close>.
\<close>

datatype 'a row = PyList (cells: "'a list") | Deque (cells: "'a list")

definition row_get :: "'a row \<Rightarrow> int \<Rightarrow> error + 'a" where
  "row_get r i = py_get (cells r) i"

definition row_set :: "'a row \<Rightarrow> int \<Rightarrow> 'a \<Rightarrow> error + 'a row" where
  "row_set r i v =
     (case py_set (cells r) i v of
        Inl e \<Rightarrow> Inl e
      | Inr xs \<Rightarrow> Inr (case r of PyList _ \<Rightarrow> PyList xs | Deque _ \<Rightarrow> Deque xs))"

text \<open>\<open>board[i][j]\<close>.\<close>

definition board_get :: "'a row list \<Rightarrow> int \<Rightarrow> int \<Rightarrow> error + 'a" where
  "board_get board i j =
     (case py_get board i of Inl e \<Rightarrow> Inl e | Inr r \<Rightarrow> row_get r j)"

text \<open>
  \<open>board[i][j] = v\<close>: the row object is found by \<open>board[i]\<close> and updated in place, which
  the model writes back at the position the row was found at.
\<close>

definition board_set :: "'a row list \<Rightarrow> int \<Rightarrow> int \<Rightarrow> 'a \<Rightarrow> error + 'a row list" where
  "board_set board i j v =
     (case py_index (length board) i of
        Inl e \<Rightarrow> Inl e
      | Inr k \<Rightarrow> (case row_set (board ! k) j v of
                   Inl e \<Rightarrow> Inl e
                 | Inr r \<Rightarrow> Inr (board[k := r])))"

text \<open>
  \<open>rotate_column\<close>. \<open>gather\<close> is the generator \<open>row[index] for row in grid\<close> that fills the
  deque; \<open>scatter\<close> is the loop \<open>for row, v in zip(grid, col): row[index] = v\<close>, which
  stops at the shorter of the two and, when an assignment raises, leaves the rows before it
  updated (the grid in the error result).
\<close>

fun gather :: "'a row list \<Rightarrow> int \<Rightarrow> error + 'a list" where
  "gather [] index = Inr []"
| "gather (r # rows) index =
     (case row_get r index of
        Inl e \<Rightarrow> Inl e
      | Inr v \<Rightarrow> (case gather rows index of Inl e \<Rightarrow> Inl e | Inr vs \<Rightarrow> Inr (v # vs)))"

fun scatter :: "'a row list \<Rightarrow> 'a list \<Rightarrow> int \<Rightarrow> (error \<times> 'a row list) + 'a row list" where
  "scatter (r # rows) (v # vs) index =
     (case row_set r index v of
        Inl e \<Rightarrow> Inl (e, r # rows)
      | Inr r' \<Rightarrow> (case scatter rows vs index of
                    Inl (e, rows') \<Rightarrow> Inl (e, r' # rows')
                  | Inr rows' \<Rightarrow> Inr (r' # rows')))"
| "scatter [] vs index = Inr []"
| "scatter rows [] index = Inr rows"

definition rotate_column :: "'a row list \<Rightarrow> int \<Rightarrow> int \<Rightarrow> (error \<times> 'a row list) + 'a row list" where
  "rotate_column grid index sign =
     (case gather grid index of
        Inl e \<Rightarrow> Inl (e, grid)
      | Inr col \<Rightarrow> scatter grid (deque_rotate sign col) index)"

section \<open>Connectivity\<close>

type_synonym cell = "int \<times> int"

type_synonym Board = "Tile row list"

definition NAVIGATION :: "(Direction \<times> int \<times> int) list" where
  "NAVIGATION = [(NORTH, -1, 0), (EAST, 0, 1), (SOUTH, 1, 0), (WEST, 0, -1)]"

text \<open>
  One pass of the loop body of \<open>get_adjacent\<close> for an entry of \<open>NAVIGATION\<close>: the cell it
  yields, if any. \<open>board[ai][aj]\<close> is read only after the bounds test, and before
  \<open>dir_ << 2\<close> is computed.
\<close>

definition adjacent_step :: "Board \<Rightarrow> Tile \<Rightarrow> int \<Rightarrow> int \<Rightarrow> Direction \<times> int \<times> int \<Rightarrow> error + cell option" where
  "adjacent_step board tile i j nav =
     (case nav of (dir, di, dj) \<Rightarrow>
        let ai = i + di; aj = j + dj
        in if path tile AND dir \<noteq> 0 \<and> 0 \<le> ai \<and> ai < 7 \<and> 0 \<le> aj \<and> aj < 7
           then (case board_get board ai aj of
                   Inl e \<Rightarrow> Inl e
                 | Inr t \<Rightarrow> (case lshift dir 2 of
                              Inl e \<Rightarrow> Inl e
                            | Inr opp \<Rightarrow> if path t AND opp \<noteq> 0 then Inr (Some (ai, aj))
                                        else Inr None))
           else Inr None)"

fun adjacent_steps :: "Board \<Rightarrow> Tile \<Rightarrow> int \<Rightarrow> int \<Rightarrow> (Direction \<times> int \<times> int) list \<Rightarrow> error + cell list" where
  "adjacent_steps board tile i j [] = Inr []"
| "adjacent_steps board tile i j (nav # navs) =
     (case adjacent_step board tile i j nav of
        Inl e \<Rightarrow> Inl e
      | Inr y \<Rightarrow> (case adjacent_steps board tile i j navs of
                   Inl e \<Rightarrow> Inl e
                 | Inr ys \<Rightarrow> Inr (case y of None \<Rightarrow> ys | Some c \<Rightarrow> c # ys)))"

text \<open>
  \<open>get_adjacent\<close>: the cells the generator yields, in order. The generator reads the board
  only, and nothing writes the board while it is consumed, so the list of all its yields
  stands for it. A raise inside the generator is the result of the whole list: the caller
  then raises as well, though possibly after it has gone through earlier yields.
\<close>

definition get_adjacent :: "Board \<Rightarrow> int \<Rightarrow> int \<Rightarrow> error + cell list" where
  "get_adjacent board i j =
     (case board_get board i j of
        Inl e \<Rightarrow> Inl e
      | Inr tile \<Rightarrow> adjacent_steps board tile i j NAVIGATION)"

text \<open>
  \<open>traverse\<close>, with the set \<open>explored\<close> passed and returned instead of updated in place.
  The first argument is the number of nested calls the interpreter still allows: with none
  left the call raises \<open>RecursionError\<close>. \<open>traverse_adj\<close> is the \<open>for adj in ...\<close> loop, with
  the test \<open>adj not in explored\<close> on the set as the calls before it left it. The source
  adds \<open>(i, j)\<close> before it starts the generator; the generator does not read the set, and
  the set is dropped when anything raises.
\<close>

fun traverse :: "nat \<Rightarrow> Board \<Rightarrow> int \<Rightarrow> int \<Rightarrow> cell set \<Rightarrow> error + cell set"
  and traverse_adj :: "nat \<Rightarrow> Board \<Rightarrow> cell list \<Rightarrow> cell set \<Rightarrow> error + cell set" where
  "traverse 0 board i j explored = Inl RecursionError"
| "traverse (Suc depth) board i j explored =
     (case get_adjacent board i j of
        Inl e \<Rightarrow> Inl e
      | Inr adjs \<Rightarrow> traverse_adj depth board adjs (insert (i, j) explored))"
| "traverse_adj depth board [] explored = Inr explored"
| "traverse_adj depth board (adj # rest) explored =
     (if adj \<notin> explored
      then (case traverse depth board (fst adj) (snd adj) explored of
              Inl e \<Rightarrow> Inl e
            | Inr explored' \<Rightarrow> traverse_adj depth board rest explored')
      else traverse_adj depth board rest explored)"

text \<open>
  CPython's recursion limit, 1000 frames unless \<open>sys.setrecursionlimit\<close> is called, which
  the source does not do. The frames of the callers of \<open>compute_graph\<close> are not counted;
  lemma \<open>traverse_component\<close> shows that any depth from 49 on is enough.
\<close>

definition recursion_limit :: nat where
  "recursion_limit = 1000"

text \<open>
  \<open>compute_graph\<close>: \<open>all_cells\<close> is the order of the two nested \<open>range(7)\<close> loops, and
  \<open>compute_graph_from\<close> runs the loop body over the cells that are left. The dictionary is
  a map; \<open>for node in explored: graph[node] = explored\<close> stores the same set under every
  member of \<open>explored\<close>.
\<close>

type_synonym Graph = "cell \<rightharpoonup> cell set"

definition all_cells :: "cell list" where
  "all_cells = concat (map (\<lambda>i. map (\<lambda>j. (i, j)) [0..6]) [0..6])"

fun compute_graph_from :: "Board \<Rightarrow> cell list \<Rightarrow> Graph \<Rightarrow> error + Graph" where
  "compute_graph_from board [] graph = Inr graph"
| "compute_graph_from board (c # cs) graph =
     (if graph c = None
      then (case traverse recursion_limit board (fst c) (snd c) {} of
              Inl e \<Rightarrow> Inl e
            | Inr explored \<Rightarrow>
                compute_graph_from board cs
                  (\<lambda>node. if node \<in> explored then Some explored else graph node))
      else compute_graph_from board cs graph)"

definition compute_graph :: "Board \<Rightarrow> error + Graph" where
  "compute_graph board = compute_graph_from board all_cells Map.empty"

section \<open>The game\<close>

text \<open>
  The part of \<open>Game\<close> that \<open>shift\<close> reads and writes; the players, the winners and the move
  history belong to the turn loop.
\<close>

record Game =
  board :: Board
  free :: Tile
  graph :: Graph

text \<open>
  The two branches of \<open>Game.shift\<close> after the free tile is rotated. A raise leaves the game
  as it is at that point, which the error result carries.

  Row branch: \<open>row = self.board[index]\<close>, \<open>row.rotate(sign)\<close> (only a deque has it), then
  the tuple assignment, whose right side \<open>row[eject_index]\<close> is read first.
\<close>

definition shift_row :: "Game \<Rightarrow> int \<Rightarrow> int \<Rightarrow> int \<Rightarrow> (error \<times> Game) + Game" where
  "shift_row self index eject_index sign =
     (case py_index (length (board self)) index of
        Inl e \<Rightarrow> Inl (e, self)
      | Inr r \<Rightarrow>
         (case board self ! r of
            PyList _ \<Rightarrow> Inl (AttributeError, self)
          | Deque xs \<Rightarrow>
             let xs' = deque_rotate sign xs
             in (case py_index (length xs') eject_index of
                   Inl e \<Rightarrow> Inl (e, self\<lparr>board := (board self)[r := Deque xs']\<rparr>)
                 | Inr k \<Rightarrow>
                     Inr (self\<lparr>free := xs' ! k,
                               board := (board self)[r := Deque (xs'[k := free self])]\<rparr>))))"

text \<open>
  Column branch: \<open>rotate_column(self.board, index, sign)\<close>, then the tuple assignment,
  whose right side \<open>self.board[eject_index][index]\<close> is read first.
\<close>

definition shift_column :: "Game \<Rightarrow> int \<Rightarrow> int \<Rightarrow> int \<Rightarrow> (error \<times> Game) + Game" where
  "shift_column self index eject_index sign =
     (case rotate_column (board self) index sign of
        Inl (e, grid) \<Rightarrow> Inl (e, self\<lparr>board := grid\<rparr>)
      | Inr grid \<Rightarrow>
         (case board_get grid eject_index index of
            Inl e \<Rightarrow> Inl (e, self\<lparr>board := grid\<rparr>)
          | Inr t \<Rightarrow>
             (case board_set grid eject_index index (free self) of
                Inl e \<Rightarrow> Inl (e, self\<lparr>free := t, board := grid\<rparr>)
              | Inr grid' \<Rightarrow> Inr (self\<lparr>free := t, board := grid'\<rparr>))))"

text \<open>
  \<open>Game.shift\<close>. \<open>not index % 2\<close> is \<open>index mod 2 = 0\<close> (Python's \<open>%\<close> gives 1 for a negative
  odd index as well); the graph is assigned only when \<open>compute_graph\<close> returns.
\<close>

definition shift :: "Game \<Rightarrow> Direction \<Rightarrow> int \<Rightarrow> int \<Rightarrow> (error \<times> Game) + Game" where
  "shift self direction index rotation =
     (if index mod 2 = 0 then Inl (ValueError, self)
      else
        (case lshift (path (free self)) rotation of
           Inl e \<Rightarrow> Inl (e, self)
         | Inr p \<Rightarrow>
            let self1 = self\<lparr>free := (free self)\<lparr>path := p\<rparr>\<rparr>;
                eject_index = (if direction AND NW \<noteq> 0 then 0 else 6);
                sign = (if direction AND NW \<noteq> 0 then 1 else - 1)
            in (case (if direction AND EW \<noteq> 0
                      then shift_row self1 index eject_index sign
                      else shift_column self1 index eject_index sign) of
                  Inl (e, self2) \<Rightarrow> Inl (e, self2)
                | Inr self2 \<Rightarrow>
                    (case compute_graph (board self2) of
                       Inl e \<Rightarrow> Inl (e, self2)
                     | Inr gr \<Rightarrow> Inr (self2\<lparr>graph := gr\<rparr>)))))"

section \<open>Construction\<close>

text \<open>
  The board literal of \<open>Game.__init__\<close>: the sixteen fixed tiles at the cells with two even
  coordinates and \<open>None\<close> everywhere else.
\<close>

definition fixed_board :: "Tile option row list" where
  "fixed_board =
     [PyList [Some (mk_Tile SE (Some (ColorItem RED))), None,
              Some (mk_Tile SEW (Some (QuestItem BOOK))), None,
              Some (mk_Tile SEW (Some (QuestItem POUCH))), None,
              Some (mk_Tile SW (Some (ColorItem YELLOW)))],
      Deque (replicate 7 None),
      PyList [Some (mk_Tile NSE (Some (QuestItem MAP))), None,
              Some (mk_Tile NSE (Some (QuestItem CROWN))), None,
              Some (mk_Tile SEW (Some (QuestItem KEYS))), None,
              Some (mk_Tile NSW (Some (QuestItem SKULL)))],
      Deque (replicate 7 None),
      PyList [Some (mk_Tile NSE (Some (QuestItem RING))), None,
              Some (mk_Tile NEW (Some (QuestItem CHEST))), None,
              Some (mk_Tile NSW (Some (QuestItem EMERALD))), None,
              Some (mk_Tile NSW (Some (QuestItem SWORD)))],
      Deque (replicate 7 None),
      PyList [Some (mk_Tile NE (Some (ColorItem GREEN))), None,
              Some (mk_Tile NEW (Some (QuestItem CANDELABRA))), None,
              Some (mk_Tile NEW (Some (QuestItem HELMET))), None,
              Some (mk_Tile NW (Some (ColorItem BLUE)))]]"

definition loose_tiles :: "Tile list" where
  "loose_tiles =
     [mk_Tile NEW (Some (QuestItem BAT)),
      mk_Tile NEW (Some (QuestItem DRAGON)),
      mk_Tile NEW (Some (QuestItem GENIE)),
      mk_Tile NEW (Some (QuestItem GHOST)),
      mk_Tile NEW (Some (QuestItem GOBLIN)),
      mk_Tile NEW (Some (QuestItem WITCH)),
      mk_Tile NE (Some (QuestItem LIZARD)),
      mk_Tile NE (Some (QuestItem MOTH)),
      mk_Tile NE (Some (QuestItem MOUSE)),
      mk_Tile NE (Some (QuestItem SPIDER)),
      mk_Tile NE (Some (QuestItem OWL)),
      mk_Tile NE (Some (QuestItem SCARAB))]
     @ replicate 13 (mk_Tile EW None)
     @ replicate 9 (mk_Tile NE None)"

text \<open>
  \<open>for tile in loose_tiles: tile.path <<= random.randint(0, 3)\<close>, where \<open>turn k\<close> is the
  value the \<open>k\<close>-th call of \<open>random.randint\<close> returns.
\<close>

fun rotate_tiles :: "(nat \<Rightarrow> int) \<Rightarrow> nat \<Rightarrow> Tile list \<Rightarrow> error + Tile list" where
  "rotate_tiles turn k [] = Inr []"
| "rotate_tiles turn k (tile # tiles) =
     (case lshift (path tile) (turn k) of
        Inl e \<Rightarrow> Inl e
      | Inr p \<Rightarrow> (case rotate_tiles turn (Suc k) tiles of
                   Inl e \<Rightarrow> Inl e
                 | Inr tiles' \<Rightarrow> Inr (tile\<lparr>path := p\<rparr> # tiles')))"

text \<open>
  The two nested loops that place the loose tiles, over the cells that are left:
  \<open>if i % 2 or j % 2: self.board[i][j] = loose_tiles.pop()\<close>.
\<close>

fun place_tiles :: "Tile option row list \<Rightarrow> cell list \<Rightarrow> Tile list \<Rightarrow> error + (Tile option row list \<times> Tile list)" where
  "place_tiles grid [] tiles = Inr (grid, tiles)"
| "place_tiles grid (c # cs) tiles =
     (if fst c mod 2 \<noteq> 0 \<or> snd c mod 2 \<noteq> 0
      then (case pop tiles of
              Inl e \<Rightarrow> Inl e
            | Inr (tile, tiles') \<Rightarrow>
                (case board_set grid (fst c) (snd c) (Some tile) of
                   Inl e \<Rightarrow> Inl e
                 | Inr grid' \<Rightarrow> place_tiles grid' cs tiles'))
      else place_tiles grid cs tiles)"

text \<open>
  \<open>compute_graph\<close> reads \<open>.path\<close> of every cell, which raises \<open>AttributeError\<close> on a cell
  that is still \<open>None\<close>; from here on every cell holds a tile.
\<close>

fun filled_cells :: "Tile option list \<Rightarrow> error + Tile list" where
  "filled_cells [] = Inr []"
| "filled_cells (None # cs) = Inl AttributeError"
| "filled_cells (Some t # cs) =
     (case filled_cells cs of Inl e \<Rightarrow> Inl e | Inr ts \<Rightarrow> Inr (t # ts))"

fun filled_board :: "Tile option row list \<Rightarrow> error + Board" where
  "filled_board [] = Inr []"
| "filled_board (r # rs) =
     (case filled_cells (cells r) of
        Inl e \<Rightarrow> Inl e
      | Inr ts \<Rightarrow> (case filled_board rs of
                   Inl e \<Rightarrow> Inl e
                 | Inr rs' \<Rightarrow> Inr ((case r of PyList _ \<Rightarrow> PyList ts | Deque _ \<Rightarrow> Deque ts) # rs')))"

text \<open>
  \<open>Game.__init__\<close> up to \<open>self.graph = compute_graph(self.board)\<close>. \<open>shuffled\<close> is
  \<open>loose_tiles\<close> as \<open>random.shuffle\<close> leaves it and \<open>turn\<close> gives the quarter turns drawn.
  What follows in the source deals the quest deck to the players (\<open>24 // len(players)\<close>
  cards each, so it raises for an empty list of players) and touches neither the board
  nor the free tile.
\<close>

definition Game_init :: "Tile list \<Rightarrow> (nat \<Rightarrow> int) \<Rightarrow> error + Game" where
  "Game_init shuffled turn =
     (case rotate_tiles turn 0 shuffled of
        Inl e \<Rightarrow> Inl e
      | Inr tiles \<Rightarrow>
         (case place_tiles fixed_board all_cells tiles of
            Inl e \<Rightarrow> Inl e
          | Inr (board0, tiles') \<Rightarrow>
             (case pop tiles' of
                Inl e \<Rightarrow> Inl e
              | Inr (free0, tiles'') \<Rightarrow>
                 (case filled_board board0 of
                    Inl e \<Rightarrow> Inl e
                  | Inr board1 \<Rightarrow>
                     (case compute_graph board1 of
                        Inl e \<Rightarrow> Inl e
                      | Inr gr \<Rightarrow> Inr \<lparr>board = board1, free = free0, graph = gr\<rparr>)))))"

section \<open>Notions for stating the properties\<close>

text \<open>
  The definitions of this section are not code of the repository: they name what the
  lemmas and theorems below are about.
\<close>

subsection \<open>Boards and cells\<close>

text \<open>
  A board of seven rows of seven cells, which is what every subscript of the source
  with constants \<open>7\<close> and \<open>6\<close> assumes.
\<close>

definition wf_board :: "'a row list \<Rightarrow> bool" where
  "wf_board b \<longleftrightarrow> length b = 7 \<and> (\<forall>r\<in>set b. length (cells r) = 7)"

text \<open>
  The cells within the bounds \<open>0 <= i < 7\<close> and \<open>0 <= j < 7\<close>, and the set of them.
\<close>

definition in_grid :: "cell \<Rightarrow> bool" where
  "in_grid c \<longleftrightarrow> 0 \<le> fst c \<and> fst c < 7 \<and> 0 \<le> snd c \<and> snd c < 7"

definition grid :: "cell set" where
  "grid = {c. in_grid c}"

text \<open>
  The content of a cell within the bounds: \<open>board[i][j]\<close> where it cannot raise.
\<close>

definition tile_at :: "'a row list \<Rightarrow> cell \<Rightarrow> 'a" where
  "tile_at b c = cells (b ! nat (fst c)) ! nat (snd c)"

text \<open>
  Whether a row is a deque, and the same update of the cells of either kind of row.
\<close>

fun is_deque :: "'a row \<Rightarrow> bool" where
  "is_deque (Deque xs) = True"
| "is_deque (PyList xs) = False"

definition map_cells :: "('a list \<Rightarrow> 'a list) \<Rightarrow> 'a row \<Rightarrow> 'a row" where
  "map_cells f r = (case r of PyList xs \<Rightarrow> PyList (f xs) | Deque xs \<Rightarrow> Deque (f xs))"

text \<open>
  The shape of the board that \<open>Game.__init__\<close> builds and every shift keeps: seven rows of
  seven tiles, rows 1, 3, 5 deques and rows 0, 2, 4, 6 plain lists.
\<close>

definition wf_game :: "Game \<Rightarrow> bool" where
  "wf_game g \<longleftrightarrow>
     wf_board (board g) \<and>
     map is_deque (board g) = [False, True, False, True, False, True, False]"

subsection \<open>Edges and components\<close>

text \<open>
  \<open>linked b c d opp c'\<close>: the tile at \<open>c\<close> has \<open>d\<close> open, \<open>c'\<close> is within the bounds and its
  tile has \<open>opp\<close> open. \<open>adj_list\<close> is the list \<open>get_adjacent\<close> yields on a well-formed
  board (lemma \<open>get_adjacent_wf\<close>), \<open>edges\<close> the relation it gives on the cells, and
  \<open>component\<close> the cells that a chain of edges reaches.
\<close>

definition linked :: "Board \<Rightarrow> cell \<Rightarrow> Direction \<Rightarrow> Direction \<Rightarrow> cell \<Rightarrow> bool" where
  "linked b c d opp c' \<longleftrightarrow>
     path (tile_at b c) AND d \<noteq> 0 \<and> in_grid c' \<and> path (tile_at b c') AND opp \<noteq> 0"

definition adj_list :: "Board \<Rightarrow> cell \<Rightarrow> cell list" where
  "adj_list b c =
     (if linked b c NORTH SOUTH (fst c - 1, snd c) then [(fst c - 1, snd c)] else []) @
     (if linked b c EAST WEST (fst c, snd c + 1) then [(fst c, snd c + 1)] else []) @
     (if linked b c SOUTH NORTH (fst c + 1, snd c) then [(fst c + 1, snd c)] else []) @
     (if linked b c WEST EAST (fst c, snd c - 1) then [(fst c, snd c - 1)] else [])"

definition edges :: "Board \<Rightarrow> (cell \<times> cell) set" where
  "edges b = {(c, c'). in_grid c \<and> c' \<in> set (adj_list b c)}"

definition component :: "Board \<Rightarrow> cell \<Rightarrow> cell set" where
  "component b c = (edges b)\<^sup>* `` {c}"

text \<open>
  What a traversal from the cells \<open>roots\<close> returns when it starts with \<open>ex\<close> explored:
  it keeps \<open>ex\<close>, contains the roots, adds only cells that a chain of edges reaches from a
  root, and contains every neighbour of each cell it adds.
\<close>

definition dfs_post :: "Board \<Rightarrow> cell set \<Rightarrow> cell set \<Rightarrow> cell set \<Rightarrow> bool" where
  "dfs_post b ex roots S \<longleftrightarrow>
     ex \<subseteq> S \<and> roots \<subseteq> S \<and> S \<subseteq> ex \<union> (edges b)\<^sup>* `` roots \<and>
     (\<forall>c\<in>S - ex. set (adj_list b c) \<subseteq> S)"

text \<open>
  The graph of a board: every cell within the bounds is mapped to its component. The
  invariant of the loop of \<open>compute_graph\<close>: the keys entered so far have this value.
\<close>

definition the_graph :: "Board \<Rightarrow> Graph" where
  "the_graph b = (\<lambda>c. if in_grid c then Some (component b c) else None)"

definition graph_inv :: "Board \<Rightarrow> Graph \<Rightarrow> bool" where
  "graph_inv b g \<longleftrightarrow> (\<forall>c. g c = None \<or> (in_grid c \<and> g c = Some (component b c)))"

subsection \<open>Sliding a row or a column\<close>

text \<open>
  \<open>line_cells d k\<close>: the cells of row \<open>k\<close> when \<open>d & EW\<close> is set and of column \<open>k\<close>
  otherwise, by increasing index; \<open>line\<close>: the tiles on them.
\<close>

definition line_cells :: "Direction \<Rightarrow> nat \<Rightarrow> cell list" where
  "line_cells d k =
     (if d AND EW \<noteq> 0 then map (\<lambda>c. (int k, c)) [0..6] else map (\<lambda>r. (r, int k)) [0..6])"

definition line :: "'a row list \<Rightarrow> Direction \<Rightarrow> nat \<Rightarrow> 'a list" where
  "line b d k = (if d AND EW \<noteq> 0 then cells (b ! k) else map (\<lambda>r. cells r ! k) b)"

text \<open>
  The slide of a line \<open>xs\<close> with the tile \<open>f\<close> pushed in: the new line and the tile that
  leaves. When \<open>d & NW\<close> is set, \<open>f\<close> enters at the front and the last tile leaves;
  otherwise \<open>f\<close> enters at the back and the first tile leaves.
\<close>

definition push :: "Direction \<Rightarrow> 'a \<Rightarrow> 'a list \<Rightarrow> 'a list \<times> 'a" where
  "push d f xs = (if d AND NW \<noteq> 0 then (f # butlast xs, last xs) else (tl xs @ [f], hd xs))"

text \<open>
  A board with column \<open>k\<close> replaced, and the board and the free tile after a slide.
\<close>

definition set_column :: "'a row list \<Rightarrow> nat \<Rightarrow> 'a list \<Rightarrow> 'a row list" where
  "set_column b k vs = map2 (\<lambda>r v. map_cells (\<lambda>xs. xs[k := v]) r) b vs"

definition slide_board :: "Board \<Rightarrow> Direction \<Rightarrow> nat \<Rightarrow> Tile \<Rightarrow> Board" where
  "slide_board b d k f =
     (if d AND EW \<noteq> 0 then b[k := Deque (fst (push d f (line b d k)))]
      else set_column b k (fst (push d f (line b d k))))"

definition slide_free :: "Board \<Rightarrow> Direction \<Rightarrow> nat \<Rightarrow> Tile \<Rightarrow> Tile" where
  "slide_free b d k f = snd (push d f (line b d k))"

text \<open>
  The single direction that has the same two tests \<open>d & NW\<close> and \<open>d & EW\<close> as \<open>d\<close>.
\<close>

definition effective_direction :: "Direction \<Rightarrow> Direction" where
  "effective_direction d =
     (if d AND EW \<noteq> 0 then (if d AND NW \<noteq> 0 then WEST else EAST)
      else (if d AND NW \<noteq> 0 then NORTH else SOUTH))"

text \<open>
  The cells that are not fixed (\<open>i % 2 or j % 2\<close>, as in \<open>Game.__init__\<close>), in row-major
  order, and the tiles on them.
\<close>

definition movable_cells :: "cell list" where
  "movable_cells = filter (\<lambda>c. fst c mod 2 \<noteq> 0 \<or> snd c mod 2 \<noteq> 0) all_cells"

definition movable_tiles :: "'a row list \<Rightarrow> 'a list" where
  "movable_tiles b = map (tile_at b) movable_cells"

text \<open>
  A sequence of calls of \<open>shift\<close>, each with its direction, index and rotation; it stops
  at the first call that raises.
\<close>

fun shifts :: "Game \<Rightarrow> (Direction \<times> int \<times> int) list \<Rightarrow> (error \<times> Game) + Game" where
  "shifts g [] = Inr g"
| "shifts g ((direction, index, rotation) # moves) =
     (case shift g direction index rotation of
        Inl e \<Rightarrow> Inl e
      | Inr g' \<Rightarrow> shifts g' moves)"

text \<open>
  Draws of \<open>random.randint(0, 3)\<close> that are all 0.
\<close>

definition no_turn :: "nat \<Rightarrow> int" where
  "no_turn k = 0"

subsection \<open>A sample game\<close>

text \<open>
  The board and the free tile that \<open>Game.__init__\<close> builds when \<open>random.shuffle\<close> leaves
  \<open>loose_tiles\<close> reversed and every quarter turn drawn is 0: the tiles are then placed in
  the order in which the source lists them.
\<close>

definition sample_board :: Board where
  "sample_board =
     [PyList [mk_Tile SE (Some (ColorItem RED)),
              mk_Tile NEW (Some (QuestItem BAT)),
              mk_Tile SEW (Some (QuestItem BOOK)),
              mk_Tile NEW (Some (QuestItem DRAGON)),
              mk_Tile SEW (Some (QuestItem POUCH)),
              mk_Tile NEW (Some (QuestItem GENIE)),
              mk_Tile SW (Some (ColorItem YELLOW))],
      Deque [mk_Tile NEW (Some (QuestItem GHOST)),
              mk_Tile NEW (Some (QuestItem GOBLIN)),
              mk_Tile NEW (Some (QuestItem WITCH)),
              mk_Tile NE (Some (QuestItem LIZARD)),
              mk_Tile NE (Some (QuestItem MOTH)),
              mk_Tile NE (Some (QuestItem MOUSE)),
              mk_Tile NE (Some (QuestItem SPIDER))],
      PyList [mk_Tile NSE (Some (QuestItem MAP)),
              mk_Tile NE (Some (QuestItem OWL)),
              mk_Tile NSE (Some (QuestItem CROWN)),
              mk_Tile NE (Some (QuestItem SCARAB)),
              mk_Tile SEW (Some (QuestItem KEYS)),
              mk_Tile EW None,
              mk_Tile NSW (Some (QuestItem SKULL))],
      Deque [mk_Tile EW None,
              mk_Tile EW None,
              mk_Tile EW None,
              mk_Tile EW None,
              mk_Tile EW None,
              mk_Tile EW None,
              mk_Tile EW None],
      PyList [mk_Tile NSE (Some (QuestItem RING)),
              mk_Tile EW None,
              mk_Tile NEW (Some (QuestItem CHEST)),
              mk_Tile EW None,
              mk_Tile NSW (Some (QuestItem EMERALD)),
              mk_Tile EW None,
              mk_Tile NSW (Some (QuestItem SWORD))],
      Deque [mk_Tile EW None,
              mk_Tile EW None,
              mk_Tile NE None,
              mk_Tile NE None,
              mk_Tile NE None,
              mk_Tile NE None,
              mk_Tile NE None],
      PyList [mk_Tile NE (Some (ColorItem GREEN)),
              mk_Tile NE None,
              mk_Tile NEW (Some (QuestItem CANDELABRA)),
              mk_Tile NE None,
              mk_Tile NEW (Some (QuestItem HELMET)),
              mk_Tile NE None,
              mk_Tile NW (Some (ColorItem BLUE))]]"

definition sample_free :: Tile where
  "sample_free = mk_Tile NE None"

definition sample_game :: Game where
  "sample_game =
     \<lparr>board = sample_board, free = sample_free,
      graph = (case compute_graph sample_board of Inl e \<Rightarrow> Map.empty | Inr gr \<Rightarrow> gr)\<rparr>"

section \<open>Rotation of directions\<close>

lemmas Direction_defs =
  NORTH_def EAST_def SOUTH_def WEST_def NE_def NW_def SE_def SW_def NS_def EW_def
  NSE_def NSW_def NEW_def SEW_def NSEW_def

lemma Direction_cases: "(d::Direction) \<in> {0, 1, 2, 3, 4, 5, 6, 7, 8, 9, 10, 11, 12, 13, 14, 15}"
proof -
  have "unat d < 16"
    using unsigned_less[of d] by simp
  then have "unat d \<in> {0, 1, 2, 3, 4, 5, 6, 7, 8, 9, 10, 11, 12, 13, 14, 15}"
    by (simp add: less_Suc_eq numeral_eq_Suc)
  then have "word_of_nat (unat d)
      \<in> (word_of_nat ` {0, 1, 2, 3, 4, 5, 6, 7, 8, 9, 10, 11, 12, 13, 14, 15} :: Direction set)"
    by (rule imageI)
  then show ?thesis by simp
qed

lemma mod4_cases: "(a::int) mod 4 \<in> {0, 1, 2, 3}"
proof -
  have "0 \<le> a mod 4" "a mod 4 < 4" by simp_all
  then show ?thesis by auto
qed

lemma lshift_mod: "lshift d (a mod 4) = lshift d a"
  by (simp add: lshift_def)

lemma lshift_table:
  assumes "k \<in> {0, 1, 2, 3}" "l \<in> {0, 1, 2, 3}"
  shows "(case lshift d k of Inl e \<Rightarrow> Inl e | Inr r \<Rightarrow> lshift r l) = lshift d ((k + l) mod 4)"
  using Direction_cases[of d] assms
  by (elim insertE emptyE; simp add: lshift_def Direction_new_def)

lemma lshift_returns_small:
  assumes "k \<in> {0, 1, 2, 3}"
  shows "\<exists>r. lshift d k = Inr r"
  using Direction_cases[of d] assms
  by (elim insertE emptyE; simp add: lshift_def Direction_new_def)

lemma lshift_returns: "\<exists>r. lshift d a = Inr r"
  using lshift_returns_small[OF mod4_cases, of d a] by (simp add: lshift_mod)

lemma lshift_compose:
  "(case lshift d a of Inl e \<Rightarrow> Inl e | Inr r \<Rightarrow> lshift r b) = lshift d ((a + b) mod 4)"
proof -
  obtain r where r: "lshift d a = Inr r"
    using lshift_returns by blast
  have "(case lshift d (a mod 4) of Inl e \<Rightarrow> Inl e | Inr r \<Rightarrow> lshift r (b mod 4))
      = lshift d ((a mod 4 + b mod 4) mod 4)"
    by (rule lshift_table[OF mod4_cases mod4_cases])
  then have "lshift r (b mod 4) = lshift d ((a + b) mod 4)"
    unfolding lshift_mod[of d a] r by (simp add: mod_add_eq)
  then show ?thesis
    by (simp add: r lshift_mod[of r b])
qed

lemma lshift_zero: "lshift d 0 = Inr d"
  using Direction_cases[of d]
  by (elim insertE emptyE; simp add: lshift_def Direction_new_def)

lemma lshift_neg: "lshift d (- amount) = lshift d ((4 - amount) mod 4)"
proof -
  have "(- amount) mod 4 = (4 - amount) mod 4"
    by (metis diff_conv_add_uminus mod_add_self1)
  then have "lshift d ((- amount) mod 4) = lshift d ((4 - amount) mod 4)"
    by simp
  then show ?thesis
    by (simp only: lshift_mod)
qed

section \<open>Reading a well-formed board\<close>

lemma py_index_in_range: "0 \<le> i \<Longrightarrow> i < int n \<Longrightarrow> py_index n i = Inr (nat i)"
  by (simp add: py_index_def)

lemma board_get_wf:
  assumes "wf_board b" "in_grid (i, j)"
  shows "board_get b i j = Inr (tile_at b (i, j))"
proof -
  from assms have i: "py_index (length b) i = Inr (nat i)"
    by (simp add: py_index_in_range wf_board_def in_grid_def)
  from assms have "nat i < length b"
    by (auto simp add: wf_board_def in_grid_def)
  then have "b ! nat i \<in> set b"
    by (rule nth_mem)
  with assms have "length (cells (b ! nat i)) = 7"
    by (simp add: wf_board_def)
  with assms have j: "py_index (length (cells (b ! nat i))) j = Inr (nat j)"
    by (simp add: py_index_in_range in_grid_def)
  show ?thesis
    by (simp add: board_get_def py_get_def row_get_def i j tile_at_def)
qed

lemma lshift_nav:
  "lshift NORTH 2 = Inr SOUTH" "lshift EAST 2 = Inr WEST"
  "lshift SOUTH 2 = Inr NORTH" "lshift WEST 2 = Inr EAST"
  by (simp_all add: lshift_def Direction_new_def NORTH_def EAST_def SOUTH_def WEST_def)

lemma adjacent_step_wf:
  assumes "wf_board b" "lshift d 2 = Inr opp"
  shows "adjacent_step b t i j (d, di, dj) =
     Inr (if path t AND d \<noteq> 0 \<and> in_grid (i + di, j + dj) \<and> path (tile_at b (i + di, j + dj)) AND opp \<noteq> 0
          then Some (i + di, j + dj) else None)"
proof (cases "in_grid (i + di, j + dj)")
  case True
  then show ?thesis
    using board_get_wf[OF assms(1) True] assms(2)
    by (simp add: adjacent_step_def Let_def in_grid_def)
next
  case False
  then show ?thesis by (auto simp add: adjacent_step_def Let_def in_grid_def)
qed

lemma get_adjacent_wf:
  assumes "wf_board b" "in_grid (i, j)"
  shows "get_adjacent b i j = Inr (adj_list b (i, j))"
  by (simp add: get_adjacent_def board_get_wf[OF assms] NAVIGATION_def
      adjacent_step_wf[OF assms(1)] lshift_nav adj_list_def linked_def)

section \<open>Edges between cells\<close>

lemma grid_eq: "grid = {0..6} \<times> {0..6}"
  by (auto simp: grid_def in_grid_def)

lemma finite_grid: "finite grid"
  by (simp add: grid_eq)

lemma card_grid: "card grid = 49"
  by (simp add: grid_eq)

lemma set_adj_list:
  "c' \<in> set (adj_list b c) \<longleftrightarrow>
     (c' = (fst c - 1, snd c) \<and> linked b c NORTH SOUTH c') \<or>
     (c' = (fst c, snd c + 1) \<and> linked b c EAST WEST c') \<or>
     (c' = (fst c + 1, snd c) \<and> linked b c SOUTH NORTH c') \<or>
     (c' = (fst c, snd c - 1) \<and> linked b c WEST EAST c')"
  by (auto simp add: adj_list_def)

lemma linked_sym: "in_grid c \<Longrightarrow> linked b c d opp c' \<Longrightarrow> linked b c' opp d c"
  by (simp add: linked_def)

lemma adj_list_sym:
  assumes "in_grid c" "c' \<in> set (adj_list b c)"
  shows "c \<in> set (adj_list b c')"
proof -
  from assms(2) consider
      (n) "c' = (fst c - 1, snd c)" "linked b c NORTH SOUTH c'"
    | (e) "c' = (fst c, snd c + 1)" "linked b c EAST WEST c'"
    | (s) "c' = (fst c + 1, snd c)" "linked b c SOUTH NORTH c'"
    | (w) "c' = (fst c, snd c - 1)" "linked b c WEST EAST c'"
    unfolding set_adj_list by blast
  then show ?thesis
  proof cases
    case n
    from linked_sym[OF assms(1) n(2)] n(1) show ?thesis by (simp add: set_adj_list)
  next
    case e
    from linked_sym[OF assms(1) e(2)] e(1) show ?thesis by (simp add: set_adj_list)
  next
    case s
    from linked_sym[OF assms(1) s(2)] s(1) show ?thesis by (simp add: set_adj_list)
  next
    case w
    from linked_sym[OF assms(1) w(2)] w(1) show ?thesis by (simp add: set_adj_list)
  qed
qed

lemma adj_list_in_grid: "c' \<in> set (adj_list b c) \<Longrightarrow> in_grid c'"
  unfolding set_adj_list by (auto simp: linked_def)

lemma sym_edges: "sym (edges b)"
  unfolding sym_def edges_def
  by (blast intro: adj_list_sym adj_list_in_grid)

lemma edges_in_grid: "(c, c') \<in> edges b \<Longrightarrow> in_grid c \<and> in_grid c'"
  by (auto simp: edges_def dest: adj_list_in_grid)

lemma reach_in_grid: "(c, c') \<in> (edges b)\<^sup>* \<Longrightarrow> in_grid c \<Longrightarrow> in_grid c'"
  by (induction rule: rtrancl_induct) (auto dest: edges_in_grid)

section \<open>The traversal\<close>

text \<open>
  The traversal from a cell within the bounds that is not yet explored returns when the
  depth left is at least the number of cells not yet explored, and what it returns
  satisfies \<open>dfs_post\<close>. The induction follows the two functions.
\<close>

lemma card_grid_mono: "ex \<subseteq> S \<Longrightarrow> card (grid - S) \<le> card (grid - ex)"
  by (rule card_mono) (auto simp: finite_grid)

lemma card_grid_insert:
  assumes "in_grid c" "c \<notin> ex"
  shows "Suc (card (grid - insert c ex)) = card (grid - ex)"
proof -
  have "c \<in> grid - ex" using assms by (simp add: grid_def)
  moreover have "grid - insert c ex = (grid - ex) - {c}" by auto
  ultimately show ?thesis
    using card_Suc_Diff1[of "grid - ex" c] finite_grid by simp
qed

lemma traverse_dfs:
  "wf_board b \<Longrightarrow> in_grid (i, j) \<Longrightarrow> (i, j) \<notin> ex \<Longrightarrow> card (grid - ex) \<le> n \<Longrightarrow>
     \<exists>S. traverse n b i j ex = Inr S \<and> dfs_post b ex {(i, j)} S"
  and traverse_adj_dfs:
  "wf_board b \<Longrightarrow> \<forall>a\<in>set adjs. in_grid a \<Longrightarrow> card (grid - ex') \<le> n \<Longrightarrow>
     \<exists>S. traverse_adj n b adjs ex' = Inr S \<and> dfs_post b ex' (set adjs) S"
proof (induction n b i j ex and n b adjs ex' rule: traverse_traverse_adj.induct)
  case (1 board i j explored)
  from card_grid_insert[OF 1(2) 1(3)] 1(4) show ?case by simp
next
  case (2 depth board i j explored)
  let ?adjs = "adj_list board (i, j)"
  have ga: "get_adjacent board i j = Inr ?adjs"
    by (rule get_adjacent_wf[OF 2(2) 2(3)])
  have "\<forall>a\<in>set ?adjs. in_grid a" by (auto dest: adj_list_in_grid)
  moreover have "card (grid - insert (i, j) explored) \<le> depth"
    using card_grid_insert[OF 2(3) 2(4)] 2(5) by simp
  ultimately obtain S where S: "traverse_adj depth board ?adjs (insert (i, j) explored) = Inr S"
    "dfs_post board (insert (i, j) explored) (set ?adjs) S"
    using 2(1)[OF ga 2(2)] by blast
  have "dfs_post board explored {(i, j)} S"
    unfolding dfs_post_def
  proof (intro conjI ballI)
    show "explored \<subseteq> S" "{(i, j)} \<subseteq> S" using S(2) by (auto simp: dfs_post_def)
    show "S \<subseteq> explored \<union> (edges board)\<^sup>* `` {(i, j)}"
    proof
      fix c assume "c \<in> S"
      with S(2) consider (old) "c \<in> insert (i, j) explored" | (new) "c \<in> (edges board)\<^sup>* `` set ?adjs"
        by (auto simp: dfs_post_def)
      then show "c \<in> explored \<union> (edges board)\<^sup>* `` {(i, j)}"
      proof cases
        case old then show ?thesis by auto
      next
        case new
        then obtain a where a: "a \<in> set ?adjs" "(a, c) \<in> (edges board)\<^sup>*" by auto
        from a(1) 2(3) have "((i, j), a) \<in> edges board" by (simp add: edges_def)
        with a(2) show ?thesis by (auto intro: converse_rtrancl_into_rtrancl)
      qed
    qed
    fix c assume c: "c \<in> S - explored"
    show "set (adj_list board c) \<subseteq> S"
    proof (cases "c = (i, j)")
      case True then show ?thesis using S(2) by (auto simp: dfs_post_def)
    next
      case False
      with c have "c \<in> S - insert (i, j) explored" by auto
      with S(2) show ?thesis by (simp add: dfs_post_def)
    qed
  qed
  with S(1) ga show ?case by simp
next
  case (3 depth board explored)
  then show ?case by (simp add: dfs_post_def)
next
  case (4 depth board adj rest explored)
  from 4(5) have adj: "in_grid adj" and rest: "\<forall>a\<in>set rest. in_grid a" by auto
  show ?case
  proof (cases "adj \<in> explored")
    case True
    then obtain S where S: "traverse_adj depth board rest explored = Inr S"
      "dfs_post board explored (set rest) S"
      using 4(3)[OF _ 4(4) rest 4(6)] by auto
    have "dfs_post board explored (set (adj # rest)) S"
      using S(2) True unfolding dfs_post_def by auto
    with S(1) True show ?thesis by simp
  next
    case False
    from adj have adj': "in_grid (fst adj, snd adj)" by simp
    from False have F': "(fst adj, snd adj) \<notin> explored" by simp
    obtain S1 where S1: "traverse depth board (fst adj) (snd adj) explored = Inr S1"
      "dfs_post board explored {adj} S1"
      using 4(1)[OF False 4(4) adj' F' 4(6)] by auto
    have "card (grid - S1) \<le> depth"
      using card_grid_mono[of explored S1] S1(2) 4(6) by (simp add: dfs_post_def)
    then obtain S where S: "traverse_adj depth board rest S1 = Inr S"
      "dfs_post board S1 (set rest) S"
      using 4(2)[OF False S1(1) 4(4) rest] by auto
    have "dfs_post board explored (set (adj # rest)) S"
      unfolding dfs_post_def
    proof (intro conjI ballI)
      show "explored \<subseteq> S" "set (adj # rest) \<subseteq> S"
        using S1(2) S(2) by (auto simp: dfs_post_def)
      have "(edges board)\<^sup>* `` {adj} \<subseteq> (edges board)\<^sup>* `` set (adj # rest)"
        "(edges board)\<^sup>* `` set rest \<subseteq> (edges board)\<^sup>* `` set (adj # rest)"
        by auto
      moreover have "S1 \<subseteq> explored \<union> (edges board)\<^sup>* `` {adj}"
        "S \<subseteq> S1 \<union> (edges board)\<^sup>* `` set rest"
        using S1(2) S(2) by (simp_all add: dfs_post_def)
      ultimately show "S \<subseteq> explored \<union> (edges board)\<^sup>* `` set (adj # rest)"
        by blast
      fix c assume c: "c \<in> S - explored"
      show "set (adj_list board c) \<subseteq> S"
      proof (cases "c \<in> S1")
        case True
        with c S1(2) have "set (adj_list board c) \<subseteq> S1" by (simp add: dfs_post_def)
        with S(2) show ?thesis by (auto simp: dfs_post_def)
      next
        case False
        with c S(2) show ?thesis by (simp add: dfs_post_def)
      qed
    qed
    with S(1) S1(1) False show ?thesis by simp
  qed
qed

section \<open>The computed graph and its edges\<close>

lemma dfs_post_component:
  assumes "dfs_post b {} {c} S" "in_grid c"
  shows "S = component b c"
proof
  show "S \<subseteq> component b c"
    using assms(1) by (simp add: dfs_post_def component_def)
  have "x \<in> S" if "(c, x) \<in> (edges b)\<^sup>*" for x
    using that
  proof (induction rule: rtrancl_induct)
    case base
    then show ?case using assms(1) by (simp add: dfs_post_def)
  next
    case (step y z)
    from step(2) have "z \<in> set (adj_list b y)" by (simp add: edges_def)
    with step(3) assms(1) show ?case by (auto simp: dfs_post_def)
  qed
  then show "component b c \<subseteq> S"
    by (auto simp: component_def)
qed

lemma traverse_component:
  assumes "wf_board b" "in_grid (i, j)" "49 \<le> n"
  shows "traverse n b i j {} = Inr (component b (i, j))"
proof -
  have "card (grid - {}) \<le> n"
    using assms(3) by (simp add: card_grid)
  then obtain S where "traverse n b i j {} = Inr S" "dfs_post b {} {(i, j)} S"
    using traverse_dfs[OF assms(1) assms(2), of "{}" n] by auto
  then show ?thesis
    using dfs_post_component[OF _ assms(2)] by simp
qed

lemma component_refl: "c \<in> component b c"
  by (simp add: component_def)

lemma component_in_grid: "in_grid c \<Longrightarrow> c' \<in> component b c \<Longrightarrow> in_grid c'"
  by (auto simp: component_def intro: reach_in_grid)

lemma component_eq:
  assumes "c' \<in> component b c"
  shows "component b c' = component b c"
proof -
  from assms have fwd: "(c, c') \<in> (edges b)\<^sup>*"
    by (simp add: component_def)
  have "sym ((edges b)\<^sup>*)"
    by (rule sym_rtrancl[OF sym_edges])
  with fwd have bwd: "(c', c) \<in> (edges b)\<^sup>*"
    by (rule symD[rotated])
  show ?thesis
  proof
    show "component b c' \<subseteq> component b c"
    proof
      fix x assume "x \<in> component b c'"
      then have "(c', x) \<in> (edges b)\<^sup>*" by (simp add: component_def)
      with fwd have "(c, x) \<in> (edges b)\<^sup>*" by (rule rtrancl_trans)
      then show "x \<in> component b c" by (simp add: component_def)
    qed
    show "component b c \<subseteq> component b c'"
    proof
      fix x assume "x \<in> component b c"
      then have "(c, x) \<in> (edges b)\<^sup>*" by (simp add: component_def)
      with bwd have "(c', x) \<in> (edges b)\<^sup>*" by (rule rtrancl_trans)
      then show "x \<in> component b c'" by (simp add: component_def)
    qed
  qed
qed

lemma compute_graph_from_inv:
  assumes "wf_board b"
  shows "\<forall>c\<in>set cs. in_grid c \<Longrightarrow> graph_inv b g \<Longrightarrow>
     \<exists>g'. compute_graph_from b cs g = Inr g' \<and> graph_inv b g' \<and>
          (\<forall>c. c \<in> set cs \<or> g c \<noteq> None \<longrightarrow> g' c \<noteq> None)"
proof (induction cs arbitrary: g)
  case Nil
  then show ?case by simp
next
  case (Cons c cs)
  from Cons(2) have c: "in_grid (fst c, snd c)" and cs: "\<forall>c\<in>set cs. in_grid c"
    by auto
  show ?case
  proof (cases "g c")
    case None
    let ?S = "component b c"
    let ?g1 = "\<lambda>node. if node \<in> ?S then Some ?S else g node"
    have tr: "traverse recursion_limit b (fst c) (snd c) {} = Inr ?S"
      using traverse_component[OF assms c] by (simp add: recursion_limit_def)
    have "graph_inv b ?g1"
      unfolding graph_inv_def
    proof
      fix x
      show "?g1 x = None \<or> (in_grid x \<and> ?g1 x = Some (component b x))"
      proof (cases "x \<in> ?S")
        case True
        with c show ?thesis
          using component_in_grid[of c x b] component_eq[of x b c] by simp
      next
        case False
        from Cons(3) have "g x = None \<or> (in_grid x \<and> g x = Some (component b x))"
          unfolding graph_inv_def by (rule spec)
        with False show ?thesis by simp
      qed
    qed
    from Cons(1)[OF cs this] obtain g' where g':
      "compute_graph_from b cs ?g1 = Inr g'" "graph_inv b g'"
      "\<forall>x. x \<in> set cs \<or> ?g1 x \<noteq> None \<longrightarrow> g' x \<noteq> None"
      by blast
    have "g' x \<noteq> None" if "x \<in> set (c # cs) \<or> g x \<noteq> None" for x
    proof (cases "x \<in> component b c")
      case True
      then have "?g1 x \<noteq> None" by simp
      with g'(3) show ?thesis by blast
    next
      case False
      with component_refl[of c b] have "x \<noteq> c" by auto
      with that False have "x \<in> set cs \<or> ?g1 x \<noteq> None" by auto
      with g'(3) show ?thesis by blast
    qed
    then have "\<forall>x. x \<in> set (c # cs) \<or> g x \<noteq> None \<longrightarrow> g' x \<noteq> None"
      by blast
    with g'(1,2) None tr show ?thesis by simp
  next
    case (Some S)
    from Cons(1)[OF cs Cons(3)] obtain g' where g':
      "compute_graph_from b cs g = Inr g'" "graph_inv b g'"
      "\<forall>x. x \<in> set cs \<or> g x \<noteq> None \<longrightarrow> g' x \<noteq> None"
      by blast
    have "\<forall>x. x \<in> set (c # cs) \<or> g x \<noteq> None \<longrightarrow> g' x \<noteq> None"
      using g'(3) Some by auto
    with g'(1,2) Some show ?thesis by simp
  qed
qed

lemma upto_0_6: "[0..6::int] = [0,1,2,3,4,5,6]"
  by (simp add: upto_rec_numeral upto.simps)

lemma all_cells_eq:
  "all_cells = [(0,0),(0,1),(0,2),(0,3),(0,4),(0,5),(0,6),
                (1,0),(1,1),(1,2),(1,3),(1,4),(1,5),(1,6),
                (2,0),(2,1),(2,2),(2,3),(2,4),(2,5),(2,6),
                (3,0),(3,1),(3,2),(3,3),(3,4),(3,5),(3,6),
                (4,0),(4,1),(4,2),(4,3),(4,4),(4,5),(4,6),
                (5,0),(5,1),(5,2),(5,3),(5,4),(5,5),(5,6),
                (6,0),(6,1),(6,2),(6,3),(6,4),(6,5),(6,6)]"
  by (simp add: all_cells_def upto_0_6)

lemma set_all_cells: "set all_cells = grid"
  by (auto simp: all_cells_def grid_eq)

lemma compute_graph_wf:
  assumes "wf_board b"
  shows "compute_graph b = Inr (the_graph b)"
proof -
  have cells: "\<forall>c\<in>set all_cells. in_grid c"
    by (simp add: set_all_cells grid_def)
  have "graph_inv b Map.empty"
    by (simp add: graph_inv_def)
  from compute_graph_from_inv[OF assms cells this]
  obtain g where g: "compute_graph_from b all_cells Map.empty = Inr g"
    "graph_inv b g" "\<forall>c. c \<in> set all_cells \<longrightarrow> g c \<noteq> None"
    by auto
  have "g c = the_graph b c" for c
  proof (cases "in_grid c")
    case True
    then have "c \<in> set all_cells" by (simp add: set_all_cells grid_def)
    moreover from g(3) have "c \<in> set all_cells \<longrightarrow> g c \<noteq> None" by (rule spec)
    ultimately have "g c \<noteq> None" by (rule rev_mp)
    moreover from g(2) have "g c = None \<or> (in_grid c \<and> g c = Some (component b c))"
      unfolding graph_inv_def by (rule spec)
    ultimately show ?thesis using True by (auto simp: the_graph_def)
  next
    case False
    moreover from g(2) have "g c = None \<or> (in_grid c \<and> g c = Some (component b c))"
      unfolding graph_inv_def by (rule spec)
    ultimately show ?thesis by (auto simp: the_graph_def)
  qed
  then have "g = the_graph b" by (rule ext)
  with g(1) show ?thesis by (simp add: compute_graph_def)
qed

lemma ran_the_graph: "ran (the_graph b) = {component b c |c. in_grid c}"
  by (auto simp: ran_def the_graph_def split: if_splits)

lemma dom_the_graph: "dom (the_graph b) = grid"
  by (auto simp: dom_def the_graph_def grid_def split: if_splits)

lemma Union_components: "\<Union>{component b c |c. in_grid c} = grid"
proof
  show "\<Union>{component b c |c. in_grid c} \<subseteq> grid"
    by (auto simp: grid_def dest: component_in_grid)
  show "grid \<subseteq> \<Union>{component b c |c. in_grid c}"
    using component_refl by (fastforce simp: grid_def)
qed

lemma components_disjoint:
  assumes "x \<in> component b c1" "x \<in> component b c2"
  shows "component b c1 = component b c2"
  using component_eq[OF assms(1)] component_eq[OF assms(2)] by simp

lemma partition_the_graph: "partition_on grid (ran (the_graph b))"
  unfolding partition_on_def ran_the_graph
proof (intro conjI)
  show "\<Union>{component b c |c. in_grid c} = grid"
    by (rule Union_components)
  show "disjoint {component b c |c. in_grid c}"
    unfolding disjoint_def
  proof (intro ballI impI)
    fix A B
    assume "A \<in> {component b c |c. in_grid c}" "B \<in> {component b c |c. in_grid c}" "A \<noteq> B"
    then obtain c1 c2 where "A = component b c1" "B = component b c2" by blast
    with \<open>A \<noteq> B\<close> show "A \<inter> B = {}"
      using components_disjoint[of _ b c1 c2] by blast
  qed
  show "{} \<notin> {component b c |c. in_grid c}"
    using component_refl by fastforce
qed

lemma nav_cases:
  assumes "(D, di, dj) \<in> set NAVIGATION"
  shows "(D = NORTH \<and> di = -1 \<and> dj = 0) \<or> (D = EAST \<and> di = 0 \<and> dj = 1) \<or>
         (D = SOUTH \<and> di = 1 \<and> dj = 0) \<or> (D = WEST \<and> di = 0 \<and> dj = -1)"
  using assms by (auto simp: NAVIGATION_def)

lemma adj_list_nav:
  assumes "(D, di, dj) \<in> set NAVIGATION" "lshift D 2 = Inr opp"
  shows "(fst c + di, snd c + dj) \<in> set (adj_list b c) \<longleftrightarrow> linked b c D opp (fst c + di, snd c + dj)"
proof -
  from nav_cases[OF assms(1)] consider
      (n) "D = NORTH" "di = -1" "dj = 0" | (e) "D = EAST" "di = 0" "dj = 1"
    | (s) "D = SOUTH" "di = 1" "dj = 0" | (w) "D = WEST" "di = 0" "dj = -1"
    by blast
  then show ?thesis
  proof cases
    case n
    with assms(2) have "opp = SOUTH" by (simp add: lshift_nav)
    with n show ?thesis by (simp add: set_adj_list)
  next
    case e
    with assms(2) have "opp = WEST" by (simp add: lshift_nav)
    with e show ?thesis by (simp add: set_adj_list)
  next
    case s
    with assms(2) have "opp = NORTH" by (simp add: lshift_nav)
    with s show ?thesis by (simp add: set_adj_list)
  next
    case w
    with assms(2) have "opp = EAST" by (simp add: lshift_nav)
    with w show ?thesis by (simp add: set_adj_list)
  qed
qed

section \<open>Rows, columns and the slide\<close>

lemma list7:
  assumes "length xs = 7"
  obtains a b c d e f g where "xs = [a, b, c, d, e, f, g]"
  using assms by (auto simp: eval_nat_numeral length_Suc_conv)

lemma deque_rotate_right:
  assumes "length xs = 7"
  shows "(deque_rotate 1 xs)[0 := f] = f # butlast xs" "deque_rotate 1 xs ! 0 = last xs"
    "length (deque_rotate 1 xs) = 7"
proof -
  obtain a b c d e f' g where "xs = [a, b, c, d, e, f', g]"
    using list7[OF assms] by blast
  then show "(deque_rotate 1 xs)[0 := f] = f # butlast xs" "deque_rotate 1 xs ! 0 = last xs"
    "length (deque_rotate 1 xs) = 7"
    by (simp_all add: deque_rotate_def eval_nat_numeral)
qed

lemma deque_rotate_left:
  assumes "length xs = 7"
  shows "(deque_rotate (- 1) xs)[6 := f] = tl xs @ [f]" "deque_rotate (- 1) xs ! 6 = hd xs"
    "length (deque_rotate (- 1) xs) = 7"
proof -
  obtain a b c d e f' g where "xs = [a, b, c, d, e, f', g]"
    using list7[OF assms] by blast
  then show "(deque_rotate (- 1) xs)[6 := f] = tl xs @ [f]" "deque_rotate (- 1) xs ! 6 = hd xs"
    "length (deque_rotate (- 1) xs) = 7"
    by (simp_all add: deque_rotate_def eval_nat_numeral)
qed

text \<open>The slide of one line of seven, as the two assignments of \<open>shift\<close> select it.\<close>

lemma slide_line:
  assumes "length xs = 7"
  shows "((deque_rotate (if d AND NW \<noteq> 0 then 1 else - 1) xs)
            [(if d AND NW \<noteq> 0 then 0 else 6) := f],
          deque_rotate (if d AND NW \<noteq> 0 then 1 else - 1) xs ! (if d AND NW \<noteq> 0 then 0 else 6))
         = push d f xs"
  using deque_rotate_right[OF assms] deque_rotate_left[OF assms]
  by (simp add: push_def)

lemma row_set_ok:
  assumes "py_index (length (cells r)) i = Inr k"
  shows "row_set r i v = Inr (map_cells (\<lambda>xs. xs[k := v]) r)"
  using assms by (cases r) (simp_all add: row_set_def py_set_def map_cells_def)

lemma row_get_ok:
  assumes "py_index (length (cells r)) i = Inr k"
  shows "row_get r i = Inr (cells r ! k)"
  using assms by (simp add: row_get_def py_get_def)

lemma gather_ok:
  assumes "\<forall>r\<in>set rows. py_index (length (cells r)) i = Inr k"
  shows "gather rows i = Inr (map (\<lambda>r. cells r ! k) rows)"
  using assms by (induction rows) (simp_all add: row_get_ok)

lemma scatter_ok:
  assumes "\<forall>r\<in>set rows. py_index (length (cells r)) i = Inr k" "length vs = length rows"
  shows "scatter rows vs i = Inr (map2 (\<lambda>r v. map_cells (\<lambda>xs. xs[k := v]) r) rows vs)"
  using assms
proof (induction rows arbitrary: vs)
  case Nil
  then show ?case by simp
next
  case (Cons r rows)
  then obtain v vs' where vs: "vs = v # vs'" by (cases vs) auto
  with Cons show ?case by (simp add: row_set_ok)
qed

lemma cells_map_cells [simp]: "cells (map_cells f r) = f (cells r)"
  by (cases r) (simp_all add: map_cells_def)

lemma is_deque_map_cells [simp]: "is_deque (map_cells f r) = is_deque r"
  by (cases r) (simp_all add: map_cells_def)

lemma length_push: "length xs = 7 \<Longrightarrow> length (fst (push d f xs)) = 7"
  by (simp add: push_def)

lemma py_index_7: "i \<in> {0, 1, 2, 3, 4, 5, 6} \<Longrightarrow> py_index 7 i = Inr (nat i)"
  by (auto simp: py_index_def)

lemma wf_game_rows:
  assumes "wf_game g" "k < 7"
  shows "length (cells (board g ! k)) = 7"
    "is_deque (board g ! k) = ([False, True, False, True, False, True, False] ! k)"
proof -
  from assms have len: "length (board g) = 7" by (simp add: wf_game_def wf_board_def)
  with assms(2) have "board g ! k \<in> set (board g)" by simp
  with assms(1) show "length (cells (board g ! k)) = 7"
    by (simp add: wf_game_def wf_board_def)
  have "map is_deque (board g) ! k = is_deque (board g ! k)"
    using len assms(2) by simp
  with assms(1) show "is_deque (board g ! k) = ([False, True, False, True, False, True, False] ! k)"
    by (simp add: wf_game_def)
qed

lemma wf_game_deque:
  assumes "wf_game g" "index \<in> {1, 3, 5}"
  shows "\<exists>xs. board g ! nat index = Deque xs \<and> length xs = 7"
proof -
  from assms(2) have k: "nat index < 7" by auto
  from assms(2) have "[False, True, False, True, False, True, False] ! nat index"
    by auto
  with wf_game_rows[OF assms(1) k] have "is_deque (board g ! nat index)"
    "length (cells (board g ! nat index)) = 7" by simp_all
  then show ?thesis by (cases "board g ! nat index") simp_all
qed

lemma shift_row_wf:
  assumes "wf_game g" "index \<in> {1, 3, 5}"
  shows "shift_row g index (if d AND NW \<noteq> 0 then 0 else 6) (if d AND NW \<noteq> 0 then 1 else - 1)
    = Inr (g\<lparr>free := snd (push d (free g) (cells (board g ! nat index))),
             board := (board g)[nat index :=
                Deque (fst (push d (free g) (cells (board g ! nat index))))]\<rparr>)"
proof -
  obtain xs where xs: "board g ! nat index = Deque xs" "length xs = 7"
    using wf_game_deque[OF assms] by blast
  from assms(1) have len: "length (board g) = 7" by (simp add: wf_game_def wf_board_def)
  from assms(2) have idx: "py_index 7 index = Inr (nat index)"
    by (intro py_index_7) auto
  show ?thesis
  proof (cases "d AND NW \<noteq> 0")
    case True
    have "py_index 7 0 = Inr 0" by (simp add: py_index_def)
    with True show ?thesis
      using deque_rotate_right[OF xs(2)]
      by (simp add: shift_row_def len idx xs push_def)
  next
    case False
    have "py_index 7 6 = Inr 6" by (simp add: py_index_def)
    with False show ?thesis
      using deque_rotate_left[OF xs(2)]
      by (simp add: shift_row_def len idx xs push_def)
  qed
qed

lemma set_column_update:
  assumes "e < length b" "length vs = length b"
  shows "(set_column b k vs)[e := map_cells (\<lambda>xs. xs[k := f]) (set_column b k vs ! e)]
       = set_column b k (vs[e := f])"
proof (rule nth_equalityI)
  show "length ((set_column b k vs)[e := map_cells (\<lambda>xs. xs[k := f]) (set_column b k vs ! e)])
      = length (set_column b k (vs[e := f]))"
    by (simp add: set_column_def)
next
  fix i
  assume "i < length ((set_column b k vs)[e := map_cells (\<lambda>xs. xs[k := f]) (set_column b k vs ! e)])"
  then have i: "i < length b" using assms by (simp add: set_column_def)
  show "(set_column b k vs)[e := map_cells (\<lambda>xs. xs[k := f]) (set_column b k vs ! e)] ! i
      = set_column b k (vs[e := f]) ! i"
  proof (cases "i = e")
    case True
    with i assms show ?thesis
      by (cases "b ! e") (simp_all add: set_column_def map_cells_def)
  next
    case False
    with i assms show ?thesis
      by (simp add: set_column_def)
  qed
qed

lemma shift_column_wf:
  assumes "wf_board (board g)" "py_index 7 index = Inr k"
  shows "shift_column g index (if d AND NW \<noteq> 0 then 0 else 6) (if d AND NW \<noteq> 0 then 1 else - 1)
    = Inr (g\<lparr>free := snd (push d (free g) (map (\<lambda>r. cells r ! k) (board g))),
             board := set_column (board g) k
                (fst (push d (free g) (map (\<lambda>r. cells r ! k) (board g))))\<rparr>)"
proof -
  let ?b = "board g"
  let ?col = "map (\<lambda>r. cells r ! k) ?b"
  let ?s = "if d AND NW \<noteq> 0 then 1 else - 1 :: int"
  let ?e = "if d AND NW \<noteq> 0 then 0 else 6 :: nat"
  let ?col' = "deque_rotate ?s ?col"
  let ?b1 = "set_column ?b k ?col'"
  from assms(1) have len: "length ?b = 7" by (simp add: wf_board_def)
  from assms have rows: "\<forall>r\<in>set ?b. py_index (length (cells r)) index = Inr k"
    by (simp add: wf_board_def)
  from assms(2) have k: "k < 7" by (auto simp: py_index_def Let_def split: if_splits)
  have col: "length ?col = 7" using len by simp
  have col': "length ?col' = 7"
    using deque_rotate_right(3)[OF col] deque_rotate_left(3)[OF col] by simp
  have rc: "rotate_column ?b index ?s = Inr ?b1"
    unfolding rotate_column_def set_column_def
    using gather_ok[OF rows] scatter_ok[OF rows, of ?col'] col' len by simp
  have e: "?e < 7" by simp
  have pe: "py_index 7 (if d AND NW \<noteq> 0 then 0 else 6) = Inr ?e"
    by (simp add: py_index_def)
  have b1e: "?b1 ! ?e = map_cells (\<lambda>xs. xs[k := ?col' ! ?e]) (?b ! ?e)"
    using len col' e by (simp add: set_column_def)
  have "?b ! ?e \<in> set ?b" using len e by (metis nth_mem)
  with assms(1) have lene: "length (cells (?b ! ?e)) = 7" by (simp add: wf_board_def)
  have idx1: "py_index (length (cells (?b1 ! ?e))) index = Inr k"
    using assms(2) lene by (simp add: b1e)
  have get: "board_get ?b1 (if d AND NW \<noteq> 0 then 0 else 6) index = Inr (?col' ! ?e)"
    unfolding board_get_def py_get_def
    using pe row_get_ok[OF idx1] k lene
    by (simp add: set_column_def len col' b1e)
  have set: "board_set ?b1 (if d AND NW \<noteq> 0 then 0 else 6) index (free g)
      = Inr (set_column ?b k (?col'[?e := free g]))"
    unfolding board_set_def
    using pe row_set_ok[OF idx1] set_column_update[of ?e ?b ?col' k "free g"] len col' e
    by (simp add: set_column_def)
  have "(?col'[?e := free g], ?col' ! ?e) = push d (free g) ?col"
    using slide_line[OF col, of d "free g"] by (simp split: if_splits)
  then have "fst (push d (free g) ?col) = ?col'[?e := free g]"
    "snd (push d (free g) ?col) = ?col' ! ?e"
    by (metis fst_conv, metis snd_conv)
  then show ?thesis
    unfolding shift_column_def using rc get set by simp
qed

lemma map_upto_7:
  assumes "length xs = 7"
  shows "map (\<lambda>i. xs ! nat i) [0..6] = xs"
proof -
  obtain a b c d e f g where "xs = [a, b, c, d, e, f, g]"
    using list7[OF assms] by blast
  then show ?thesis by (simp add: upto_0_6 eval_nat_numeral)
qed

lemma length_line:
  assumes "wf_board b" "k < 7"
  shows "length (line b d k) = 7"
proof -
  from assms have "b ! k \<in> set b" by (simp add: wf_board_def)
  with assms show ?thesis by (simp add: line_def wf_board_def)
qed

lemma line_tiles:
  assumes "wf_board b" "k < 7"
  shows "map (tile_at b) (line_cells d k) = line b d k"
proof (cases "d AND EW \<noteq> 0")
  case True
  from assms have "b ! k \<in> set b" by (simp add: wf_board_def)
  with assms have "length (cells (b ! k)) = 7" by (simp add: wf_board_def)
  from map_upto_7[OF this] True show ?thesis
    by (simp add: line_cells_def line_def tile_at_def comp_def)
next
  case False
  from assms have len: "length b = 7" by (simp add: wf_board_def)
  have "map (\<lambda>i. map (\<lambda>r. cells r ! k) b ! nat i) [0..6] = map (\<lambda>r. cells r ! k) b"
    by (rule map_upto_7) (simp add: len)
  moreover have "map (\<lambda>i. map (\<lambda>r. cells r ! k) b ! nat i) [0..6]
      = map (\<lambda>i. cells (b ! nat i) ! k) [0..6]"
    using len by (simp add: upto_0_6)
  ultimately show ?thesis using False
    by (simp add: line_cells_def line_def tile_at_def comp_def)
qed

lemma wf_slide_board:
  assumes "wf_board b" "k < 7"
  shows "wf_board (slide_board b d k f)"
proof -
  have len: "length (fst (push d f (line b d k))) = 7"
    by (rule length_push[OF length_line[OF assms]])
  show ?thesis
  proof (cases "d AND EW \<noteq> 0")
    case True
    with assms len show ?thesis
      by (auto simp: slide_board_def wf_board_def dest!: set_update_subset_insert[THEN subsetD])
  next
    case False
    with assms len show ?thesis
      by (auto simp: slide_board_def wf_board_def set_column_def set_zip)
  qed
qed

lemma deque_slide_board:
  assumes "length b = 7" "k < 7" "d AND EW \<noteq> 0 \<longrightarrow> is_deque (b ! k)"
  shows "map is_deque (slide_board b d k f) = map is_deque b"
proof (cases "d AND EW \<noteq> 0")
  case True
  with assms show ?thesis
    by (simp add: slide_board_def map_update list_update_same_conv)
next
  case False
  have "length (fst (push d f (line b d k))) = length b"
    using False assms(1) by (simp add: push_def line_def)
  with False show ?thesis
    by (intro nth_equalityI) (simp_all add: slide_board_def set_column_def)
qed

lemma slide_board_other:
  assumes "wf_board b" "k < 7" "in_grid c" "c \<notin> set (line_cells d k)"
  shows "tile_at (slide_board b d k f) c = tile_at b c"
proof (cases "d AND EW \<noteq> 0")
  case True
  with assms(4) have "fst c \<noteq> int k \<or> snd c \<notin> set [0..6]"
    by (cases c) (auto simp: line_cells_def)
  with assms(3) have "nat (fst c) \<noteq> k" by (auto simp: in_grid_def)
  with True show ?thesis by (simp add: slide_board_def tile_at_def)
next
  case False
  with assms(4) have "snd c \<noteq> int k \<or> fst c \<notin> set [0..6]"
    by (cases c) (auto simp: line_cells_def)
  with assms(3) have ne: "nat (snd c) \<noteq> k" by (auto simp: in_grid_def)
  have len: "length (fst (push d f (line b d k))) = 7"
    by (rule length_push[OF length_line[OF assms(1,2)]])
  from assms(1,3) have r: "nat (fst c) < length b" by (auto simp: wf_board_def in_grid_def)
  with False ne len assms(1) show ?thesis
    by (simp add: slide_board_def tile_at_def set_column_def wf_board_def)
qed

lemma slide_board_line:
  assumes "wf_board b" "k < 7"
  shows "map (tile_at (slide_board b d k f)) (line_cells d k) = fst (push d f (line b d k))"
proof -
  let ?ys = "fst (push d f (line b d k))"
  have len: "length ?ys = 7"
    by (rule length_push[OF length_line[OF assms]])
  from assms have lb: "length b = 7" by (simp add: wf_board_def)
  show ?thesis
  proof (cases "d AND EW \<noteq> 0")
    case True
    with assms(2) lb map_upto_7[OF len] show ?thesis
      by (simp add: line_cells_def slide_board_def tile_at_def comp_def)
  next
    case False
    have "map (\<lambda>i. cells (set_column b k ?ys ! nat i) ! k) [0..6] = map (\<lambda>i. ?ys ! nat i) [0..6]"
    proof (rule map_cong[OF refl])
      fix i :: int assume "i \<in> set [0..6]"
      then have i: "nat i < 7" by auto
      with lb have "b ! nat i \<in> set b" by simp
      with assms(1) have "length (cells (b ! nat i)) = 7" by (simp add: wf_board_def)
      with i lb len assms(2) show "cells (set_column b k ?ys ! nat i) ! k = ?ys ! nat i"
        by (simp add: set_column_def)
    qed
    with False map_upto_7[OF len] show ?thesis
      by (simp add: line_cells_def slide_board_def tile_at_def comp_def)
  qed
qed

section \<open>The shift on a well-formed game\<close>

lemma shift_wf:
  assumes "wf_game g" "lshift (path (free g)) rotation = Inr p" "py_index 7 index = Inr k"
    "index mod 2 \<noteq> 0" "d AND EW \<noteq> 0 \<longrightarrow> index \<in> {1, 3, 5}"
  shows "shift g d index rotation =
     Inr (g\<lparr>free := slide_free (board g) d k ((free g)\<lparr>path := p\<rparr>),
            board := slide_board (board g) d k ((free g)\<lparr>path := p\<rparr>),
            graph := the_graph (slide_board (board g) d k ((free g)\<lparr>path := p\<rparr>))\<rparr>)"
proof -
  let ?f = "(free g)\<lparr>path := p\<rparr>"
  let ?g1 = "g\<lparr>free := ?f\<rparr>"
  from assms(1) have wf1: "wf_game ?g1" and wfb: "wf_board (board g)"
    by (simp_all add: wf_game_def)
  from assms(3) have k: "k < 7" by (auto simp: py_index_def Let_def split: if_splits)
  have cg: "compute_graph (slide_board (board g) d k ?f) = Inr (the_graph (slide_board (board g) d k ?f))"
    by (rule compute_graph_wf[OF wf_slide_board[OF wfb k]])
  show ?thesis
  proof (cases "d AND EW \<noteq> 0")
    case True
    with assms(5) have idx: "index \<in> {1, 3, 5}" by simp
    with assms(3) have kk: "k = nat index" by (auto simp: py_index_def)
    from True show ?thesis
      using shift_row_wf[OF wf1 idx, of d] cg assms(2,4)
      by (simp add: shift_def Let_def slide_board_def slide_free_def line_def kk)
  next
    case False
    from wfb have wfb1: "wf_board (board ?g1)" by simp
    from False show ?thesis
      using shift_column_wf[OF wfb1 assms(3), of d] cg assms(2,4)
      by (simp add: shift_def Let_def slide_board_def slide_free_def line_def)
  qed
qed

lemma wf_game_shift:
  assumes "wf_game g" "k < 7" "d AND EW \<noteq> 0 \<longrightarrow> k \<in> {1, 3, 5}"
  shows "wf_game (g\<lparr>free := f', board := slide_board (board g) d k f, graph := gr\<rparr>)"
proof -
  from assms(1) have wfb: "wf_board (board g)" and len: "length (board g) = 7"
    by (simp_all add: wf_game_def wf_board_def)
  have "d AND EW \<noteq> 0 \<longrightarrow> is_deque (board g ! k)"
    using wf_game_rows(2)[OF assms(1,2)] assms(3) by auto
  from deque_slide_board[OF len assms(2) this] wf_slide_board[OF wfb assms(2)] assms(1)
  show ?thesis by (simp add: wf_game_def)
qed

lemma wf_sample_game: "wf_game sample_game"
  by (simp add: wf_game_def wf_board_def sample_game_def sample_board_def)

lemma cardinal_flags:
  "NORTH AND NW \<noteq> 0" "NORTH AND EW = 0" "WEST AND NW \<noteq> 0" "WEST AND EW \<noteq> 0"
  "SOUTH AND NW = 0" "SOUTH AND EW = 0" "EAST AND NW = 0" "EAST AND EW \<noteq> 0"
  by (simp_all add: Direction_defs)

lemma effective_direction_flags:
  "effective_direction d AND NW \<noteq> 0 \<longleftrightarrow> d AND NW \<noteq> 0"
  "effective_direction d AND EW \<noteq> 0 \<longleftrightarrow> d AND EW \<noteq> 0"
  by (simp_all add: effective_direction_def cardinal_flags)

lemma shift_effective_direction:
  "shift g d index rotation = shift g (effective_direction d) index rotation"
  unfolding shift_def effective_direction_flags ..

lemma line_cells_row:
  assumes "d AND EW \<noteq> 0"
  shows "line_cells d k = [(int k, 0), (int k, 1), (int k, 2), (int k, 3), (int k, 4), (int k, 5), (int k, 6)]"
  using assms by (simp add: line_cells_def upto_0_6)

lemma line_cells_column:
  assumes "d AND EW = 0"
  shows "line_cells d k = [(0, int k), (1, int k), (2, int k), (3, int k), (4, int k), (5, int k), (6, int k)]"
  using assms by (simp add: line_cells_def upto_0_6)

text \<open>What a shift that passes the index test and finds its row or column does.\<close>

lemma shift_slides:
  assumes "wf_game g" "py_index 7 index = Inr k" "index mod 2 \<noteq> 0"
    "d AND EW \<noteq> 0 \<longrightarrow> index \<in> {1, 3, 5}"
  shows "\<exists>g' p. shift g d index rotation = Inr g' \<and> lshift (path (free g)) rotation = Inr p \<and>
           wf_game g' \<and>
           (map (tile_at (board g')) (line_cells d k), free g')
             = push d ((free g)\<lparr>path := p\<rparr>) (map (tile_at (board g)) (line_cells d k)) \<and>
           (\<forall>c. in_grid c \<and> c \<notin> set (line_cells d k) \<longrightarrow>
                tile_at (board g') c = tile_at (board g) c)"
proof -
  obtain p where p: "lshift (path (free g)) rotation = Inr p"
    using lshift_returns by blast
  let ?f = "(free g)\<lparr>path := p\<rparr>"
  let ?b' = "slide_board (board g) d k ?f"
  let ?g' = "g\<lparr>free := slide_free (board g) d k ?f, board := ?b', graph := the_graph ?b'\<rparr>"
  from assms(1) have wfb: "wf_board (board g)" by (simp add: wf_game_def)
  from assms(2) have k: "k < 7" by (auto simp: py_index_def Let_def split: if_splits)
  have dk: "d AND EW \<noteq> 0 \<longrightarrow> k \<in> {1, 3, 5}"
    using assms(2,4) by (auto simp: py_index_def)
  have "shift g d index rotation = Inr ?g'"
    by (rule shift_wf[OF assms(1) p assms(2,3,4)])
  moreover have "wf_game ?g'"
    by (rule wf_game_shift[OF assms(1) k dk])
  moreover have "(map (tile_at (board ?g')) (line_cells d k), free ?g')
      = push d ?f (map (tile_at (board g)) (line_cells d k))"
    using slide_board_line[OF wfb k, of d ?f] line_tiles[OF wfb k, of d]
    by (simp add: slide_free_def)
  moreover have "\<forall>c. in_grid c \<and> c \<notin> set (line_cells d k) \<longrightarrow>
      tile_at (board ?g') c = tile_at (board g) c"
    using slide_board_other[OF wfb k] by simp
  ultimately show ?thesis using p by blast
qed

lemma sample_row1:
  "map (tile_at sample_board) [(1, 0), (1, 1), (1, 2), (1, 3), (1, 4), (1, 5), (1, 6)]
     = [mk_Tile NEW (Some (QuestItem GHOST)), mk_Tile NEW (Some (QuestItem GOBLIN)),
        mk_Tile NEW (Some (QuestItem WITCH)), mk_Tile NE (Some (QuestItem LIZARD)),
        mk_Tile NE (Some (QuestItem MOTH)), mk_Tile NE (Some (QuestItem MOUSE)),
        mk_Tile NE (Some (QuestItem SPIDER))]"
  by (simp add: tile_at_def sample_board_def)

lemma shift_sample_row1:
  assumes "d AND EW \<noteq> 0"
  shows "\<exists>g'. shift sample_game d 1 0 = Inr g' \<and>
     (map (tile_at (board g')) [(1, 0), (1, 1), (1, 2), (1, 3), (1, 4), (1, 5), (1, 6)], free g')
       = push d sample_free
           [mk_Tile NEW (Some (QuestItem GHOST)), mk_Tile NEW (Some (QuestItem GOBLIN)),
            mk_Tile NEW (Some (QuestItem WITCH)), mk_Tile NE (Some (QuestItem LIZARD)),
            mk_Tile NE (Some (QuestItem MOTH)), mk_Tile NE (Some (QuestItem MOUSE)),
            mk_Tile NE (Some (QuestItem SPIDER))]"
proof -
  have one: "py_index 7 1 = Inr 1" "(1::int) mod 2 \<noteq> 0" "d AND EW \<noteq> 0 \<longrightarrow> (1::int) \<in> {1, 3, 5}"
    by (simp_all add: py_index_def)
  have b: "board sample_game = sample_board" "free sample_game = sample_free"
    by (simp_all add: sample_game_def)
  show ?thesis
    using shift_slides[OF wf_sample_game one, of 0] sample_row1 assms
    by (auto simp: lshift_zero line_cells_row b)
qed

lemma wf_game_list_row:
  assumes "wf_game g" "k \<in> {0, 2, 4, 6}"
  shows "\<exists>xs. board g ! k = PyList xs"
proof -
  from assms(2) have k: "k < 7" by auto
  from assms(2) have "\<not> [False, True, False, True, False, True, False] ! k"
    by auto
  with wf_game_rows(2)[OF assms(1) k] have "\<not> is_deque (board g ! k)" by simp
  then show ?thesis by (cases "board g ! k") simp_all
qed

lemma shift_row_list:
  assumes "wf_game g" "index \<in> {- 1, - 3, - 5, - 7}"
  shows "shift_row g index e s = Inl (AttributeError, g)"
proof -
  from assms(2) have "py_index 7 index = Inr (nat (index + 7))" "nat (index + 7) \<in> {0, 2, 4, 6}"
    by (auto simp: py_index_def)
  moreover from assms(1) have "length (board g) = 7" by (simp add: wf_game_def wf_board_def)
  ultimately show ?thesis
    using wf_game_list_row[OF assms(1), of "nat (index + 7)"]
    by (auto simp: shift_row_def)
qed

section \<open>The movable tiles\<close>

lemma movable_cells_eq:
  "movable_cells =
     [(0,1),(0,3),(0,5),
      (1,0),(1,1),(1,2),(1,3),(1,4),(1,5),(1,6),
      (2,1),(2,3),(2,5),
      (3,0),(3,1),(3,2),(3,3),(3,4),(3,5),(3,6),
      (4,1),(4,3),(4,5),
      (5,0),(5,1),(5,2),(5,3),(5,4),(5,5),(5,6),
      (6,1),(6,3),(6,5)]"
  by (simp add: movable_cells_def all_cells_eq)

lemma distinct_movable_cells: "distinct movable_cells"
  by (simp add: movable_cells_eq)

lemma movable_cells_in_grid: "c \<in> set movable_cells \<Longrightarrow> in_grid c"
  using set_all_cells by (auto simp: movable_cells_def grid_def)

lemma line_cells_mem:
  "c \<in> set (line_cells d k) \<longleftrightarrow>
     (if d AND EW \<noteq> 0 then fst c = int k \<and> snd c \<in> {0..6} else snd c = int k \<and> fst c \<in> {0..6})"
  by (cases c) (auto simp: line_cells_def)

lemma distinct_line_cells: "distinct (line_cells d k)"
  by (simp add: line_cells_def upto_0_6)

lemma line_cells_movable:
  assumes "k \<in> {1, 3, 5}"
  shows "set (line_cells d k) \<subseteq> set movable_cells"
proof
  fix c assume c: "c \<in> set (line_cells d k)"
  then have "in_grid c" using assms
    by (auto simp: line_cells_mem in_grid_def split: if_splits)
  then have "c \<in> set all_cells" by (simp add: set_all_cells grid_def)
  moreover from c assms have "fst c mod 2 \<noteq> 0 \<or> snd c mod 2 \<noteq> 0"
    by (auto simp: line_cells_mem split: if_splits)
  ultimately show "c \<in> set movable_cells" by (simp add: movable_cells_def)
qed

lemma mset_split_sublist:
  assumes "distinct xs" "distinct ys" "set ys \<subseteq> set xs"
  shows "mset xs = mset ys + mset (filter (\<lambda>c. c \<notin> set ys) xs)"
proof -
  have s: "set (filter (\<lambda>c. c \<in> set ys) xs) = set ys" using assms(3) by auto
  have d: "distinct (filter (\<lambda>c. c \<in> set ys) xs)" using assms(1) by simp
  have "mset (filter (\<lambda>c. c \<in> set ys) xs) = mset ys"
    using set_eq_iff_mset_eq_distinct[OF d assms(2)] s by (rule iffD1)
  moreover have "mset xs = mset (filter (\<lambda>c. c \<in> set ys) xs) + mset (filter (\<lambda>c. c \<notin> set ys) xs)"
    unfolding mset_filter by (rule multiset_partition)
  ultimately show ?thesis by (simp only:)
qed

lemma mset_push:
  assumes "xs \<noteq> []"
  shows "mset (fst (push d f xs)) + {#snd (push d f xs)#} = mset xs + {#f#}"
proof (cases "d AND NW \<noteq> 0")
  case True
  have "mset (butlast xs) + {#last xs#} = mset xs"
    using assms by (metis append_butlast_last_id mset.simps(1) mset.simps(2) mset_append add_mset_add_single)
  with True show ?thesis by (simp add: push_def)
next
  case False
  have "mset (tl xs) + {#hd xs#} = mset xs"
    using assms by (cases xs) simp_all
  with False show ?thesis by (simp add: push_def)
qed

lemma push_members:
  assumes "xs \<noteq> []"
  shows "snd (push d f xs) \<in> set xs" "f \<in> set (fst (push d f xs))"
  using assms by (simp_all add: push_def)

lemma movable_tiles_split:
  assumes "k \<in> {1, 3, 5}"
  shows "mset (movable_tiles b) = mset (map (tile_at b) (line_cells d k))
     + mset (map (tile_at b) (filter (\<lambda>c. c \<notin> set (line_cells d k)) movable_cells))"
proof -
  have "mset movable_cells = mset (line_cells d k)
      + mset (filter (\<lambda>c. c \<notin> set (line_cells d k)) movable_cells)"
    by (rule mset_split_sublist[OF distinct_movable_cells distinct_line_cells
          line_cells_movable[OF assms]])
  then have "image_mset (tile_at b) (mset movable_cells)
      = image_mset (tile_at b) (mset (line_cells d k)
          + mset (filter (\<lambda>c. c \<notin> set (line_cells d k)) movable_cells))"
    by simp
  then show ?thesis by (simp add: movable_tiles_def)
qed

lemma line_cells_fixed:
  assumes "k \<in> {1, 3, 5}" "i \<in> {0, 2, 4, 6}" "j \<in> {0, 2, 4, 6}"
  shows "in_grid (i, j) \<and> (i, j) \<notin> set (line_cells d k)"
  using assms by (auto simp: line_cells_mem in_grid_def)

section \<open>The constructed game\<close>

lemma rotate_tiles_returns:
  "\<exists>tiles. rotate_tiles turn k ts = Inr tiles \<and> length tiles = length ts \<and>
     map item tiles = map item ts"
proof (induction ts arbitrary: k)
  case Nil
  then show ?case by simp
next
  case (Cons t ts)
  obtain p where "lshift (path t) (turn k) = Inr p"
    using lshift_returns by blast
  moreover obtain tiles where "rotate_tiles turn (Suc k) ts = Inr tiles"
    "length tiles = length ts" "map item tiles = map item ts"
    using Cons by blast
  ultimately show ?case by simp
qed

lemma list34:
  assumes "length xs = 34"
  obtains s0 s1 s2 s3 s4 s5 s6 s7 s8 s9 s10 s11 s12 s13 s14 s15 s16 s17 s18 s19 s20 s21 s22 s23 s24 s25 s26 s27 s28 s29 s30 s31 s32 s33 where
    "xs = [s0, s1, s2, s3, s4, s5, s6, s7, s8, s9, s10, s11, s12, s13, s14, s15, s16, s17, s18, s19, s20, s21, s22, s23, s24, s25, s26, s27, s28, s29, s30, s31, s32, s33]"
proof -
  have "[0..<34] = [0, 1, 2, 3, 4, 5, 6, 7, 8, 9, 10, 11, 12, 13, 14, 15, 16, 17, 18, 19, 20, 21, 22, 23, 24, 25, 26, 27, 28, 29, 30, 31, 32, 33]"
    by code_simp
  moreover have "map ((!) xs) [0..<34] = xs"
    using map_nth[of xs] assms by simp
  ultimately have "xs = [xs ! 0, xs ! 1, xs ! 2, xs ! 3, xs ! 4, xs ! 5, xs ! 6, xs ! 7, xs ! 8, xs ! 9, xs ! 10, xs ! 11, xs ! 12, xs ! 13, xs ! 14, xs ! 15, xs ! 16, xs ! 17, xs ! 18, xs ! 19, xs ! 20, xs ! 21, xs ! 22, xs ! 23, xs ! 24, xs ! 25, xs ! 26, xs ! 27, xs ! 28, xs ! 29, xs ! 30, xs ! 31, xs ! 32, xs ! 33]"
    by simp
  then show ?thesis by (rule that)
qed

lemma replicate_7: "replicate 7 x = [x, x, x, x, x, x, x]"
  by (simp add: eval_nat_numeral)

lemma place_tiles_34:
  "place_tiles fixed_board all_cells [s33, s32, s31, s30, s29, s28, s27, s26, s25, s24, s23, s22, s21, s20, s19, s18, s17, s16, s15, s14, s13, s12, s11, s10, s9, s8, s7, s6, s5, s4, s3, s2, s1, s0]
     = Inr ([PyList [Some (mk_Tile SE (Some (ColorItem RED))), Some s0, Some (mk_Tile SEW (Some (QuestItem BOOK))), Some s1, Some (mk_Tile SEW (Some (QuestItem POUCH))), Some s2, Some (mk_Tile SW (Some (ColorItem YELLOW)))],
       Deque [Some s3, Some s4, Some s5, Some s6, Some s7, Some s8, Some s9],
       PyList [Some (mk_Tile NSE (Some (QuestItem MAP))), Some s10, Some (mk_Tile NSE (Some (QuestItem CROWN))), Some s11, Some (mk_Tile SEW (Some (QuestItem KEYS))), Some s12, Some (mk_Tile NSW (Some (QuestItem SKULL)))],
       Deque [Some s13, Some s14, Some s15, Some s16, Some s17, Some s18, Some s19],
       PyList [Some (mk_Tile NSE (Some (QuestItem RING))), Some s20, Some (mk_Tile NEW (Some (QuestItem CHEST))), Some s21, Some (mk_Tile NSW (Some (QuestItem EMERALD))), Some s22, Some (mk_Tile NSW (Some (QuestItem SWORD)))],
       Deque [Some s23, Some s24, Some s25, Some s26, Some s27, Some s28, Some s29],
       PyList [Some (mk_Tile NE (Some (ColorItem GREEN))), Some s30, Some (mk_Tile NEW (Some (QuestItem CANDELABRA))), Some s31, Some (mk_Tile NEW (Some (QuestItem HELMET))), Some s32, Some (mk_Tile NW (Some (ColorItem BLUE)))]], [s33])"
  by (simp add: all_cells_eq fixed_board_def replicate_7 pop_def board_set_def py_index_def
      row_set_def py_set_def)

lemma length_loose_tiles: "length loose_tiles = 34"
  by (simp add: loose_tiles_def)

lemma length_movable_cells: "length movable_cells = 33"
  by (simp add: movable_cells_eq)

lemma Game_init_34:
  assumes "rotate_tiles turn 0 shuffled = Inr [s33, s32, s31, s30, s29, s28, s27, s26, s25, s24, s23, s22, s21, s20, s19, s18, s17, s16, s15, s14, s13, s12, s11, s10, s9, s8, s7, s6, s5, s4, s3, s2, s1, s0]"
  shows "\<exists>g. Game_init shuffled turn = Inr g \<and>
     movable_tiles (board g) = [s0, s1, s2, s3, s4, s5, s6, s7, s8, s9, s10, s11, s12, s13, s14, s15, s16, s17, s18, s19, s20, s21, s22, s23, s24, s25, s26, s27, s28, s29, s30, s31, s32] \<and>
     free g = s33 \<and> wf_game g \<and>
     (\<forall>i\<in>{0, 2, 4, 6}. \<forall>j\<in>{0, 2, 4, 6}. Some (tile_at (board g) (i, j)) = tile_at fixed_board (i, j))"
proof -
  let ?b = "[PyList [mk_Tile SE (Some (ColorItem RED)), s0, mk_Tile SEW (Some (QuestItem BOOK)), s1, mk_Tile SEW (Some (QuestItem POUCH)), s2, mk_Tile SW (Some (ColorItem YELLOW))],
       Deque [s3, s4, s5, s6, s7, s8, s9],
       PyList [mk_Tile NSE (Some (QuestItem MAP)), s10, mk_Tile NSE (Some (QuestItem CROWN)), s11, mk_Tile SEW (Some (QuestItem KEYS)), s12, mk_Tile NSW (Some (QuestItem SKULL))],
       Deque [s13, s14, s15, s16, s17, s18, s19],
       PyList [mk_Tile NSE (Some (QuestItem RING)), s20, mk_Tile NEW (Some (QuestItem CHEST)), s21, mk_Tile NSW (Some (QuestItem EMERALD)), s22, mk_Tile NSW (Some (QuestItem SWORD))],
       Deque [s23, s24, s25, s26, s27, s28, s29],
       PyList [mk_Tile NE (Some (ColorItem GREEN)), s30, mk_Tile NEW (Some (QuestItem CANDELABRA)), s31, mk_Tile NEW (Some (QuestItem HELMET)), s32, mk_Tile NW (Some (ColorItem BLUE))]]"
  have wf: "wf_board ?b"
    by (simp add: wf_board_def)
  have init: "Game_init shuffled turn = Inr \<lparr>board = ?b, free = s33, graph = the_graph ?b\<rparr>"
    unfolding Game_init_def assms
    by (simp add: place_tiles_34 pop_def compute_graph_wf[OF wf])
  have "movable_tiles ?b = [s0, s1, s2, s3, s4, s5, s6, s7, s8, s9, s10, s11, s12, s13, s14, s15, s16, s17, s18, s19, s20, s21, s22, s23, s24, s25, s26, s27, s28, s29, s30, s31, s32]"
    by (simp add: movable_tiles_def movable_cells_eq tile_at_def)
  moreover have "wf_game \<lparr>board = ?b, free = s33, graph = the_graph ?b\<rparr>"
    by (simp add: wf_game_def wf_board_def)
  moreover have "\<forall>i\<in>{0, 2, 4, 6}. \<forall>j\<in>{0, 2, 4, 6}. Some (tile_at ?b (i, j)) = tile_at fixed_board (i, j)"
    by (simp add: tile_at_def fixed_board_def)
  ultimately show ?thesis
    using init by simp
qed

lemma loose_tiles_eq:
  "loose_tiles =
     [mk_Tile NEW (Some (QuestItem BAT)), mk_Tile NEW (Some (QuestItem DRAGON)),
      mk_Tile NEW (Some (QuestItem GENIE)), mk_Tile NEW (Some (QuestItem GHOST)),
      mk_Tile NEW (Some (QuestItem GOBLIN)), mk_Tile NEW (Some (QuestItem WITCH)),
      mk_Tile NE (Some (QuestItem LIZARD)), mk_Tile NE (Some (QuestItem MOTH)),
      mk_Tile NE (Some (QuestItem MOUSE)), mk_Tile NE (Some (QuestItem SPIDER)),
      mk_Tile NE (Some (QuestItem OWL)), mk_Tile NE (Some (QuestItem SCARAB)),
      mk_Tile EW None, mk_Tile EW None, mk_Tile EW None, mk_Tile EW None, mk_Tile EW None,
      mk_Tile EW None, mk_Tile EW None, mk_Tile EW None, mk_Tile EW None, mk_Tile EW None,
      mk_Tile EW None, mk_Tile EW None, mk_Tile EW None,
      mk_Tile NE None, mk_Tile NE None, mk_Tile NE None, mk_Tile NE None, mk_Tile NE None,
      mk_Tile NE None, mk_Tile NE None, mk_Tile NE None, mk_Tile NE None]"
  by (simp add: loose_tiles_def eval_nat_numeral)

lemma rotate_tiles_no_turn: "rotate_tiles no_turn k ts = Inr ts"
  by (induction ts arbitrary: k) (simp_all add: no_turn_def lshift_zero)

text \<open>The sample game is the game \<open>__init__\<close> builds from the reversed list of loose tiles.\<close>

lemma Game_init_sample: "Game_init (rev loose_tiles) no_turn = Inr sample_game"
proof -
  have wf: "wf_board sample_board"
    by (simp add: wf_board_def sample_board_def)
  show ?thesis
    unfolding Game_init_def rotate_tiles_no_turn
    by (simp add: loose_tiles_eq place_tiles_34 pop_def sample_game_def
        compute_graph_wf[OF wf] sample_free_def)
      (simp add: sample_board_def compute_graph_wf[OF wf, unfolded sample_board_def])
qed

section \<open>Claims\<close>

text \<open>
  C1, as stated, fails on the sample game: after \<open>shift(EAST, 1, 0)\<close> the new free tile is
  the tile that was at column 0 of row 1, not the one at column 6; column 0 holds the tile
  that was at column 1, not the previous free tile; and the previous free tile is at
  column 6.
\<close>

theorem shift_east_row1_counterexample:
  "\<not> isl (shift sample_game EAST 1 0) \<and>
   tile_at sample_board (1, 0) = mk_Tile NEW (Some (QuestItem GHOST)) \<and>
   tile_at sample_board (1, 1) = mk_Tile NEW (Some (QuestItem GOBLIN)) \<and>
   tile_at sample_board (1, 6) = mk_Tile NE (Some (QuestItem SPIDER)) \<and>
   free sample_game = mk_Tile NE None \<and>
   free (projr (shift sample_game EAST 1 0)) = mk_Tile NEW (Some (QuestItem GHOST)) \<and>
   free (projr (shift sample_game EAST 1 0)) \<noteq> tile_at sample_board (1, 6) \<and>
   tile_at (board (projr (shift sample_game EAST 1 0))) (1, 0) = mk_Tile NEW (Some (QuestItem GOBLIN)) \<and>
   tile_at (board (projr (shift sample_game EAST 1 0))) (1, 0) \<noteq> free sample_game \<and>
   tile_at (board (projr (shift sample_game EAST 1 0))) (1, 1) \<noteq> tile_at sample_board (1, 0) \<and>
   tile_at (board (projr (shift sample_game EAST 1 0))) (1, 6) = free sample_game"
proof -
  have "EAST AND EW \<noteq> 0" by (simp add: cardinal_flags)
  from shift_sample_row1[OF this] obtain g' where g':
    "shift sample_game EAST 1 0 = Inr g'"
    "map (tile_at (board g')) [(1, 0), (1, 1), (1, 2), (1, 3), (1, 4), (1, 5), (1, 6)]
      = [mk_Tile NEW (Some (QuestItem GOBLIN)),
            mk_Tile NEW (Some (QuestItem WITCH)), mk_Tile NE (Some (QuestItem LIZARD)),
            mk_Tile NE (Some (QuestItem MOTH)), mk_Tile NE (Some (QuestItem MOUSE)),
            mk_Tile NE (Some (QuestItem SPIDER)), sample_free]"
    "free g' = mk_Tile NEW (Some (QuestItem GHOST))"
    by (auto simp: push_def cardinal_flags)
  have f: "free sample_game = mk_Tile NE None"
    by (simp add: sample_game_def sample_free_def)
  have ne: "mk_Tile NEW (Some (QuestItem GHOST)) \<noteq> mk_Tile NE (Some (QuestItem SPIDER))"
    "mk_Tile NEW (Some (QuestItem GOBLIN)) \<noteq> mk_Tile NE None"
    "mk_Tile NEW (Some (QuestItem WITCH)) \<noteq> mk_Tile NEW (Some (QuestItem GHOST))"
    by (simp_all add: mk_Tile_def)
  from g'(2) have "tile_at (board g') (1, 0) = mk_Tile NEW (Some (QuestItem GOBLIN))"
    "tile_at (board g') (1, 1) = mk_Tile NEW (Some (QuestItem WITCH))"
    "tile_at (board g') (1, 6) = sample_free"
    by simp_all
  with g'(1,3) sample_row1 f ne show ?thesis
    by (simp add: sample_free_def)
qed

text \<open>
  C1, amended. On a game whose board has the shape \<open>__init__\<close> builds, \<open>shift\<close> with
  direction EAST, index 1 and rotation 0 moves every tile of row 1 one column to the left
  (toward lower column indices), makes the tile previously at column 0 the new free tile,
  and places the previous free tile at column 6. In general, for an index among 1, 3, 5
  and a single direction, the direction names the side where the rotated free tile enters:
  for NORTH and WEST it enters at index 0, the tiles move toward higher indices and the
  tile previously at index 6 becomes the free tile; for SOUTH and EAST it enters at index
  6, the tiles move toward lower indices and the tile previously at index 0 becomes the
  free tile. No other cell changes. (\<open>line_cells d k\<close> lists the cells of row \<open>k\<close> for EAST
  and WEST and of column \<open>k\<close> for NORTH and SOUTH, by increasing index.)
\<close>

theorem shift_inserts_at_named_side:
  assumes "wf_game g" "d \<in> {NORTH, EAST, SOUTH, WEST}" "index \<in> {1, 3, 5}"
  shows "(\<exists>g'. shift g EAST 1 0 = Inr g' \<and>
            map (tile_at (board g')) [(1, 0), (1, 1), (1, 2), (1, 3), (1, 4), (1, 5), (1, 6)]
              = map (tile_at (board g)) [(1, 1), (1, 2), (1, 3), (1, 4), (1, 5), (1, 6)] @ [free g] \<and>
            free g' = tile_at (board g) (1, 0)) \<and>
         (\<exists>g' p. shift g d index rotation = Inr g' \<and>
            lshift (path (free g)) rotation = Inr p \<and>
            (map (tile_at (board g')) (line_cells d (nat index)), free g')
              = (let xs = map (tile_at (board g)) (line_cells d (nat index));
                     f = (free g)\<lparr>path := p\<rparr>
                 in if d = NORTH \<or> d = WEST then (f # butlast xs, last xs)
                    else (tl xs @ [f], hd xs)) \<and>
            (\<forall>c. in_grid c \<and> c \<notin> set (line_cells d (nat index)) \<longrightarrow>
                 tile_at (board g') c = tile_at (board g) c))"
proof -
  have one: "py_index 7 1 = Inr 1" "(1::int) mod 2 \<noteq> 0" "EAST AND EW \<noteq> 0 \<longrightarrow> (1::int) \<in> {1, 3, 5}"
    by (simp_all add: py_index_def)
  have "\<exists>g'. shift g EAST 1 0 = Inr g' \<and>
      map (tile_at (board g')) [(1, 0), (1, 1), (1, 2), (1, 3), (1, 4), (1, 5), (1, 6)]
        = map (tile_at (board g)) [(1, 1), (1, 2), (1, 3), (1, 4), (1, 5), (1, 6)] @ [free g] \<and>
      free g' = tile_at (board g) (1, 0)"
    using shift_slides[OF assms(1) one, of 0]
    by (auto simp: lshift_zero push_def cardinal_flags line_cells_row)
  moreover
  from assms(3) have idx: "py_index 7 index = Inr (nat index)" "index mod 2 \<noteq> 0"
    "d AND EW \<noteq> 0 \<longrightarrow> index \<in> {1, 3, 5}"
    by (auto simp: py_index_def)
  from assms(2) have side: "d = NORTH \<or> d = WEST \<longleftrightarrow> d AND NW \<noteq> 0"
    by (auto simp: cardinal_flags)
  obtain g' p where g':
    "shift g d index rotation = Inr g'" "lshift (path (free g)) rotation = Inr p"
    "(map (tile_at (board g')) (line_cells d (nat index)), free g')
       = push d ((free g)\<lparr>path := p\<rparr>) (map (tile_at (board g)) (line_cells d (nat index)))"
    "\<forall>c. in_grid c \<and> c \<notin> set (line_cells d (nat index)) \<longrightarrow>
         tile_at (board g') c = tile_at (board g) c"
    using shift_slides[OF assms(1) idx, of rotation] by blast
  from g'(3) side have
    "(map (tile_at (board g')) (line_cells d (nat index)), free g')
      = (let xs = map (tile_at (board g)) (line_cells d (nat index));
             f = (free g)\<lparr>path := p\<rparr>
         in if d = NORTH \<or> d = WEST then (f # butlast xs, last xs)
            else (tl xs @ [f], hd xs))"
    by (simp add: push_def Let_def)
  with g'(1,2,4) have "\<exists>g' p. shift g d index rotation = Inr g' \<and>
      lshift (path (free g)) rotation = Inr p \<and>
      (map (tile_at (board g')) (line_cells d (nat index)), free g')
        = (let xs = map (tile_at (board g)) (line_cells d (nat index));
               f = (free g)\<lparr>path := p\<rparr>
           in if d = NORTH \<or> d = WEST then (f # butlast xs, last xs)
              else (tl xs @ [f], hd xs)) \<and>
      (\<forall>c. in_grid c \<and> c \<notin> set (line_cells d (nat index)) \<longrightarrow>
           tile_at (board g') c = tile_at (board g) c)"
    by blast
  ultimately show ?thesis by blast
qed

text \<open>
  An instance of the amended C1: the sample game, and NORTH on column 3 with the free
  tile turned once.
\<close>

theorem shift_inserts_at_named_side_witness:
  "wf_game sample_game \<and> NORTH \<in> {NORTH, EAST, SOUTH, WEST} \<and> (3::int) \<in> {1, 3, 5} \<and>
   (\<exists>g'. shift sample_game EAST 1 0 = Inr g' \<and>
      map (tile_at (board g')) [(1, 0), (1, 1), (1, 2), (1, 3), (1, 4), (1, 5), (1, 6)]
        = map (tile_at (board sample_game)) [(1, 1), (1, 2), (1, 3), (1, 4), (1, 5), (1, 6)]
            @ [free sample_game] \<and>
      free g' = tile_at (board sample_game) (1, 0)) \<and>
   (\<exists>g' p. shift sample_game NORTH 3 1 = Inr g' \<and>
      lshift (path (free sample_game)) 1 = Inr p \<and>
      (map (tile_at (board g')) (line_cells NORTH (nat 3)), free g')
        = (let xs = map (tile_at (board sample_game)) (line_cells NORTH (nat 3));
               f = (free sample_game)\<lparr>path := p\<rparr>
           in if NORTH = NORTH \<or> NORTH = WEST then (f # butlast xs, last xs)
              else (tl xs @ [f], hd xs)) \<and>
      (\<forall>c. in_grid c \<and> c \<notin> set (line_cells NORTH (nat 3)) \<longrightarrow>
           tile_at (board g') c = tile_at (board sample_game) c))"
proof -
  have h: "wf_game sample_game" "NORTH \<in> {NORTH, EAST, SOUTH, WEST}" "(3::int) \<in> {1, 3, 5}"
    by (simp_all add: wf_game_def wf_board_def sample_game_def sample_board_def)
  from shift_inserts_at_named_side[OF h, of 1] h show ?thesis
    by (intro conjI) blast+
qed

text \<open>
  C2. On a board of seven rows of seven tiles, for a cell \<open>(i, j)\<close> within bounds and an
  entry \<open>(D, di, dj)\<close> of \<open>NAVIGATION\<close>, \<open>get_adjacent\<close> yields the neighbour
  \<open>(i + di, j + dj)\<close> iff the neighbour is within the bounds, the tile at \<open>(i, j)\<close> has \<open>D\<close>
  open and the neighbour's tile has \<open>D << 2\<close> open. When the neighbour is within bounds,
  it yields \<open>(i, j)\<close> in turn iff \<open>(i, j)\<close> yields it: an opening on one side only gives no
  edge in either direction.
\<close>

theorem get_adjacent_edge_rule:
  assumes "wf_board b" "0 \<le> i" "i < 7" "0 \<le> j" "j < 7" "(D, di, dj) \<in> set NAVIGATION"
  shows "\<exists>adjs tile opp.
           get_adjacent b i j = Inr adjs \<and> board_get b i j = Inr tile \<and> lshift D 2 = Inr opp \<and>
           ((i + di, j + dj) \<in> set adjs \<longleftrightarrow>
              0 \<le> i + di \<and> i + di < 7 \<and> 0 \<le> j + dj \<and> j + dj < 7 \<and>
              path tile AND D \<noteq> 0 \<and>
              (\<exists>tile'. board_get b (i + di) (j + dj) = Inr tile' \<and> path tile' AND opp \<noteq> 0)) \<and>
           (0 \<le> i + di \<and> i + di < 7 \<and> 0 \<le> j + dj \<and> j + dj < 7 \<longrightarrow>
              (\<exists>adjs'. get_adjacent b (i + di) (j + dj) = Inr adjs' \<and>
                 ((i, j) \<in> set adjs' \<longleftrightarrow> (i + di, j + dj) \<in> set adjs)))"
proof -
  from assms have c: "in_grid (i, j)" by (simp add: in_grid_def)
  obtain opp where opp: "lshift D 2 = Inr opp"
    using lshift_returns by blast
  let ?n = "(i + di, j + dj)"
  have mem: "?n \<in> set (adj_list b (i, j)) \<longleftrightarrow> linked b (i, j) D opp ?n"
    using adj_list_nav[OF assms(6) opp, of "(i, j)" b] by simp
  have rule: "?n \<in> set (adj_list b (i, j)) \<longleftrightarrow>
      0 \<le> i + di \<and> i + di < 7 \<and> 0 \<le> j + dj \<and> j + dj < 7 \<and>
      path (tile_at b (i, j)) AND D \<noteq> 0 \<and>
      (\<exists>tile'. board_get b (i + di) (j + dj) = Inr tile' \<and> path tile' AND opp \<noteq> 0)"
  proof (cases "in_grid ?n")
    case True
    with mem board_get_wf[OF assms(1) True] show ?thesis
      by (auto simp: linked_def in_grid_def)
  next
    case False
    with mem show ?thesis by (auto simp: linked_def in_grid_def)
  qed
  have rev_edge: "\<exists>adjs'. get_adjacent b (i + di) (j + dj) = Inr adjs' \<and>
      ((i, j) \<in> set adjs' \<longleftrightarrow> ?n \<in> set (adj_list b (i, j)))"
    if "in_grid ?n"
    using get_adjacent_wf[OF assms(1) that] adj_list_sym[OF c, of ?n b]
      adj_list_sym[OF that, of "(i, j)" b]
    by auto
  show ?thesis
    using get_adjacent_wf[OF assms(1) c] board_get_wf[OF assms(1) c] opp rule rev_edge
    by (simp add: in_grid_def)
qed

text \<open>
  An instance of C2 on the sample board: the corner \<open>(0, 0)\<close>, its east neighbour and the
  entry of \<open>NAVIGATION\<close> for EAST.
\<close>

theorem get_adjacent_edge_rule_witness:
  "wf_board sample_board \<and> (EAST, 0, 1) \<in> set NAVIGATION \<and>
   (\<exists>adjs tile opp.
      get_adjacent sample_board 0 0 = Inr adjs \<and> board_get sample_board 0 0 = Inr tile \<and>
      lshift EAST 2 = Inr opp \<and>
      ((0, 1) \<in> set adjs \<longleftrightarrow>
         path tile AND EAST \<noteq> 0 \<and>
         (\<exists>tile'. board_get sample_board 0 1 = Inr tile' \<and> path tile' AND opp \<noteq> 0)) \<and>
      (\<exists>adjs'. get_adjacent sample_board 0 1 = Inr adjs' \<and>
         ((0, 0) \<in> set adjs' \<longleftrightarrow> (0, 1) \<in> set adjs)))"
  using get_adjacent_edge_rule[of sample_board 0 0 EAST 0 1]
  by (simp add: wf_board_def sample_board_def NAVIGATION_def)

text \<open>
  C3. For every board of seven rows of seven tiles, \<open>compute_graph\<close> returns a graph
  whose keys are the 49 cells, in which every cell belongs to its own class, every member
  of a cell's class has the very same class, and the classes form a partition of the 49
  cells.
\<close>

theorem compute_graph_partition:
  assumes "wf_board b"
  shows "\<exists>g. compute_graph b = Inr g \<and>
           dom g = {0..6} \<times> {0..6} \<and>
           (\<forall>c\<in>{0..6} \<times> {0..6}. \<exists>S. g c = Some S \<and> c \<in> S \<and> (\<forall>c'\<in>S. g c' = Some S)) \<and>
           partition_on ({0..6} \<times> {0..6}) (ran g)"
proof -
  have "\<exists>S. the_graph b c = Some S \<and> c \<in> S \<and> (\<forall>c'\<in>S. the_graph b c' = Some S)"
    if "c \<in> grid" for c
  proof -
    from that have c: "in_grid c" by (simp add: grid_def)
    have "the_graph b c' = Some (component b c)" if "c' \<in> component b c" for c'
      using component_in_grid[OF c that] component_eq[OF that] by (simp add: the_graph_def)
    with c show ?thesis
      by (simp add: the_graph_def component_refl)
  qed
  then show ?thesis
    using compute_graph_wf[OF assms] dom_the_graph[of b] partition_the_graph[of b]
    by (simp add: grid_eq)
qed

theorem compute_graph_partition_witness:
  "wf_board sample_board \<and>
   (\<exists>g. compute_graph sample_board = Inr g \<and>
        dom g = {0..6} \<times> {0..6} \<and>
        (\<forall>c\<in>{0..6} \<times> {0..6}. \<exists>S. g c = Some S \<and> c \<in> S \<and> (\<forall>c'\<in>S. g c' = Some S)) \<and>
        partition_on ({0..6} \<times> {0..6}) (ran g))"
  using compute_graph_partition[of sample_board]
  by (simp add: wf_board_def sample_board_def)

text \<open>
  C4, as stated, fails on the sample game: \<open>shift(NE, 1, 0)\<close> raises nothing. It slides
  row 1 as WEST does: the free tile enters at column 0 and the tile of column 6 leaves.
\<close>

theorem shift_combined_direction_counterexample:
  "\<not> isl (shift sample_game NE 1 0) \<and>
   free (projr (shift sample_game NE 1 0)) = mk_Tile NE (Some (QuestItem SPIDER)) \<and>
   tile_at (board (projr (shift sample_game NE 1 0))) (1, 0) = free sample_game \<and>
   tile_at (board (projr (shift sample_game NE 1 0))) (1, 1) = mk_Tile NEW (Some (QuestItem GHOST))"
proof -
  have "NE AND EW \<noteq> 0" "NE AND NW \<noteq> 0" by (simp_all add: Direction_defs)
  with shift_sample_row1[of NE] obtain g' where g':
    "shift sample_game NE 1 0 = Inr g'"
    "map (tile_at (board g')) [(1, 0), (1, 1), (1, 2), (1, 3), (1, 4), (1, 5), (1, 6)]
      = [sample_free, mk_Tile NEW (Some (QuestItem GHOST)), mk_Tile NEW (Some (QuestItem GOBLIN)),
            mk_Tile NEW (Some (QuestItem WITCH)), mk_Tile NE (Some (QuestItem LIZARD)),
            mk_Tile NE (Some (QuestItem MOTH)), mk_Tile NE (Some (QuestItem MOUSE))]"
    "free g' = mk_Tile NE (Some (QuestItem SPIDER))"
    by (auto simp: push_def)
  from g'(2) have "tile_at (board g') (1, 0) = sample_free"
    "tile_at (board g') (1, 1) = mk_Tile NEW (Some (QuestItem GHOST))"
    by simp_all
  with g'(1,3) show ?thesis
    by (simp add: sample_game_def)
qed

text \<open>
  C4, amended. \<open>shift\<close> has no test for a combined direction flag: it only tests
  \<open>direction & NW\<close> and \<open>direction & EW\<close>. For an index among 1, 3, 5 it raises no error
  for any of the sixteen flag values, and acts as the single direction with the same two
  tests: WEST when both are set, NORTH when only the first is, EAST when only the second
  is, SOUTH when neither is. So NE acts as WEST and NS acts as NORTH.
\<close>

theorem shift_combined_direction_masked:
  assumes "wf_game g" "index \<in> {1, 3, 5}"
  shows "shift g d index rotation = shift g (effective_direction d) index rotation \<and>
         effective_direction d \<in> {NORTH, EAST, SOUTH, WEST} \<and>
         \<not> isl (shift g d index rotation) \<and>
         effective_direction NE = WEST \<and> effective_direction NS = NORTH"
proof -
  from assms(2) have idx: "py_index 7 index = Inr (nat index)" "index mod 2 \<noteq> 0"
    "d AND EW \<noteq> 0 \<longrightarrow> index \<in> {1, 3, 5}"
    by (auto simp: py_index_def)
  from shift_slides[OF assms(1) idx, of rotation] have "\<not> isl (shift g d index rotation)"
    by auto
  moreover have "effective_direction NE = WEST" "effective_direction NS = NORTH"
    by (simp_all add: effective_direction_def Direction_defs)
  moreover have "effective_direction d \<in> {NORTH, EAST, SOUTH, WEST}"
    by (simp add: effective_direction_def)
  ultimately show ?thesis
    using shift_effective_direction[of g d index rotation] by simp
qed

text \<open>
  An instance of the amended C4: NE on row 1 of the sample game.
\<close>

theorem shift_combined_direction_masked_witness:
  "wf_game sample_game \<and> (1::int) \<in> {1, 3, 5} \<and>
   shift sample_game NE 1 0 = shift sample_game WEST 1 0 \<and>
   \<not> isl (shift sample_game NE 1 0)"
proof -
  have h: "wf_game sample_game" "(1::int) \<in> {1, 3, 5}"
    by (simp_all add: wf_game_def wf_board_def sample_game_def sample_board_def)
  from shift_combined_direction_masked[OF h, of NE 0]
  have a: "shift sample_game NE 1 0 = shift sample_game (effective_direction NE) 1 0"
    and b: "\<not> isl (shift sample_game NE 1 0)"
    and c: "effective_direction NE = WEST"
    by blast+
  from a have "shift sample_game NE 1 0 = shift sample_game WEST 1 0"
    unfolding c .
  with b h show ?thesis
    by (intro conjI)
qed

text \<open>
  C5. For every direction, every rotation and every even index, in particular 0, 2, 4
  and 6, \<open>shift\<close> raises its invalid-move error, which is \<open>ValueError\<close>, and the game is
  left as it was: the board, the free tile and the graph are unchanged.
\<close>

theorem shift_even_index_rejected:
  assumes "index \<in> {0, 2, 4, 6}"
  shows "shift self direction index rotation = Inl (ValueError, self)"
  using assms by (auto simp add: shift_def)

theorem shift_even_index_rejected_witness:
  "(2::int) \<in> {0, 2, 4, 6} \<and> shift sample_game NORTH 2 3 = Inl (ValueError, sample_game)"
  using shift_even_index_rejected[of 2 sample_game NORTH 3] by simp

text \<open>
  C6. After a shift with an index among 1, 3, 5 (for any direction flag, the single
  directions among them), the tiles on the movable cells together with the free tile are,
  as a multiset, the ones before the shift with the free tile turned; the multiset of
  their occupants is unchanged. The new free tile was on a movable cell, the turned old
  free tile is on a movable cell, and the tiles on the movable cells are the old ones
  with one occurrence of the new free tile removed and the turned old free tile added.
  Tiles are compared as values, by path and occupant; \<open>movable_tiles\<close> lists the tiles on
  the 33 cells that have an odd coordinate.
\<close>

theorem shift_conserves_tiles:
  assumes "wf_game g" "index \<in> {1, 3, 5}"
  shows "\<exists>g' p. shift g d index rotation = Inr g' \<and> lshift (path (free g)) rotation = Inr p \<and>
     mset (movable_tiles (board g')) + {#free g'#}
       = mset (movable_tiles (board g)) + {#(free g)\<lparr>path := p\<rparr>#} \<and>
     free g' \<in> set (movable_tiles (board g)) \<and>
     (free g)\<lparr>path := p\<rparr> \<in> set (movable_tiles (board g')) \<and>
     mset (movable_tiles (board g'))
       = mset (movable_tiles (board g)) - {#free g'#} + {#(free g)\<lparr>path := p\<rparr>#} \<and>
     image_mset item (mset (movable_tiles (board g')) + {#free g'#})
       = image_mset item (mset (movable_tiles (board g)) + {#free g#})"
proof -
  let ?k = "nat index"
  let ?L = "line_cells d ?k"
  let ?R = "filter (\<lambda>c. c \<notin> set ?L) movable_cells"
  from assms(2) have idx: "py_index 7 index = Inr ?k" "index mod 2 \<noteq> 0"
    "d AND EW \<noteq> 0 \<longrightarrow> index \<in> {1, 3, 5}" and k: "?k \<in> {1, 3, 5}"
    by (auto simp: py_index_def)
  obtain g' p where g':
    "shift g d index rotation = Inr g'" "lshift (path (free g)) rotation = Inr p"
    "(map (tile_at (board g')) ?L, free g')
       = push d ((free g)\<lparr>path := p\<rparr>) (map (tile_at (board g)) ?L)"
    "\<forall>c. in_grid c \<and> c \<notin> set ?L \<longrightarrow> tile_at (board g') c = tile_at (board g) c"
    using shift_slides[OF assms(1) idx, of rotation] by blast
  let ?f = "(free g)\<lparr>path := p\<rparr>"
  let ?xs = "map (tile_at (board g)) ?L"
  have ne: "?xs \<noteq> []" by (simp add: line_cells_def upto_0_6)
  from g'(3) have line': "map (tile_at (board g')) ?L = fst (push d ?f ?xs)"
    and free': "free g' = snd (push d ?f ?xs)"
    by (metis fst_conv, metis snd_conv)
  have rest: "map (tile_at (board g')) ?R = map (tile_at (board g)) ?R"
  proof (rule map_cong[OF refl])
    fix c assume "c \<in> set ?R"
    then have "in_grid c \<and> c \<notin> set ?L" by (auto dest: movable_cells_in_grid)
    with g'(4) show "tile_at (board g') c = tile_at (board g) c" by blast
  qed
  have total: "mset (movable_tiles (board g')) + {#free g'#}
      = mset (movable_tiles (board g)) + {#?f#}"
    unfolding movable_tiles_split[OF k, of _ d] rest line' free'
    using mset_push[OF ne, of d ?f] by (simp add: ac_simps)
  have "set ?xs \<subseteq> set (movable_tiles (board g))"
    using line_cells_movable[OF k, of d] by (auto simp: movable_tiles_def)
  with push_members(1)[OF ne, of d ?f] free'
  have out: "free g' \<in> set (movable_tiles (board g))" by auto
  have "set (map (tile_at (board g')) ?L) \<subseteq> set (movable_tiles (board g'))"
    using line_cells_movable[OF k, of d] by (auto simp: movable_tiles_def)
  with push_members(2)[OF ne, of ?f d] line'
  have "in": "?f \<in> set (movable_tiles (board g'))" by auto
  from out have "free g' \<in># mset (movable_tiles (board g))" by simp
  then obtain B where B: "mset (movable_tiles (board g)) = add_mset (free g') B"
    by (rule mset_add)
  with total have "mset (movable_tiles (board g')) = B + {#?f#}" by simp
  with B have swap: "mset (movable_tiles (board g'))
      = mset (movable_tiles (board g)) - {#free g'#} + {#?f#}" by simp
  have "image_mset item (mset (movable_tiles (board g')) + {#free g'#})
      = image_mset item (mset (movable_tiles (board g)) + {#?f#})"
    by (simp only: total)
  then have items: "image_mset item (mset (movable_tiles (board g')) + {#free g'#})
      = image_mset item (mset (movable_tiles (board g)) + {#free g#})"
    by simp
  from g'(1,2) total out "in" swap items show ?thesis by blast
qed

text \<open>
  An instance of C6: SOUTH at index 3 on the sample game, the free tile turned twice.
\<close>

theorem shift_conserves_tiles_witness:
  "wf_game sample_game \<and> (3::int) \<in> {1, 3, 5} \<and>
   (\<exists>g' p. shift sample_game SOUTH 3 2 = Inr g' \<and>
      lshift (path (free sample_game)) 2 = Inr p \<and>
      mset (movable_tiles (board g')) + {#free g'#}
        = mset (movable_tiles (board sample_game)) + {#(free sample_game)\<lparr>path := p\<rparr>#} \<and>
      free g' \<in> set (movable_tiles (board sample_game)) \<and>
      (free sample_game)\<lparr>path := p\<rparr> \<in> set (movable_tiles (board g')) \<and>
      mset (movable_tiles (board g'))
        = mset (movable_tiles (board sample_game)) - {#free g'#}
            + {#(free sample_game)\<lparr>path := p\<rparr>#} \<and>
      image_mset item (mset (movable_tiles (board g')) + {#free g'#})
        = image_mset item (mset (movable_tiles (board sample_game)) + {#free sample_game#}))"
proof -
  have h: "wf_game sample_game" "(3::int) \<in> {1, 3, 5}"
    by (simp_all add: wf_game_def wf_board_def sample_game_def sample_board_def)
  from shift_conserves_tiles[OF h, of SOUTH 2] h show ?thesis
    by (intro conjI)
qed

text \<open>
  C7. After any sequence of \<open>shift\<close> calls whose indices are among 1, 3, 5, run from a
  game with the board shape \<open>__init__\<close> builds, every call has returned and each cell
  with two even coordinates holds the tile it held at the start, path and occupant
  included. \<open>shifts\<close> runs the calls in order and stops at the first that raises.
\<close>

theorem fixed_tiles_stay:
  assumes "wf_game g" "\<forall>(direction, index, rotation)\<in>set moves. index \<in> {1, 3, 5}"
  shows "\<exists>g'. shifts g moves = Inr g' \<and> wf_game g' \<and>
     (\<forall>i\<in>{0, 2, 4, 6}. \<forall>j\<in>{0, 2, 4, 6}. tile_at (board g') (i, j) = tile_at (board g) (i, j))"
  using assms
proof (induction moves arbitrary: g)
  case Nil
  then show ?case by simp
next
  case (Cons m moves)
  obtain d index rotation where m: "m = (d, index, rotation)"
    by (cases m) auto
  with Cons(3) have index: "index \<in> {1, 3, 5}"
    and moves: "\<forall>(direction, index, rotation)\<in>set moves. index \<in> {1, 3, 5}"
    by auto
  from index have idx: "py_index 7 index = Inr (nat index)" "index mod 2 \<noteq> 0"
    "d AND EW \<noteq> 0 \<longrightarrow> index \<in> {1, 3, 5}" and k: "nat index \<in> {1, 3, 5}"
    by (auto simp: py_index_def)
  obtain g1 where g1: "shift g d index rotation = Inr g1" "wf_game g1"
    "\<forall>c. in_grid c \<and> c \<notin> set (line_cells d (nat index)) \<longrightarrow>
         tile_at (board g1) c = tile_at (board g) c"
    using shift_slides[OF Cons(2) idx, of rotation] by blast
  obtain g' where g': "shifts g1 moves = Inr g'" "wf_game g'"
    "\<forall>i\<in>{0, 2, 4, 6}. \<forall>j\<in>{0, 2, 4, 6}. tile_at (board g') (i, j) = tile_at (board g1) (i, j)"
    using Cons(1)[OF g1(2) moves] by blast
  have "tile_at (board g') (i, j) = tile_at (board g) (i, j)"
    if "i \<in> {0, 2, 4, 6}" "j \<in> {0, 2, 4, 6}" for i j
  proof -
    from g'(3) that have "tile_at (board g') (i, j) = tile_at (board g1) (i, j)" by blast
    also from g1(3) line_cells_fixed[OF k that, of d]
    have "tile_at (board g1) (i, j) = tile_at (board g) (i, j)" by blast
    finally show ?thesis .
  qed
  with g'(1,2) g1(1) m show ?case by simp
qed

text \<open>
  An instance of C7: three shifts on the sample game.
\<close>

theorem fixed_tiles_stay_witness:
  "wf_game sample_game \<and>
   (\<exists>g'. shifts sample_game [(EAST, 1, 0), (NORTH, 3, 1), (WEST, 5, 3)] = Inr g' \<and> wf_game g' \<and>
      (\<forall>i\<in>{0, 2, 4, 6}. \<forall>j\<in>{0, 2, 4, 6}.
         tile_at (board g') (i, j) = tile_at (board sample_game) (i, j)))"
proof -
  have h: "wf_game sample_game"
    by (simp add: wf_game_def wf_board_def sample_game_def sample_board_def)
  have m: "\<forall>(direction, index, rotation)\<in>set [(EAST, 1, 0), (NORTH, 3, 1), (WEST, 5, 3)].
      index \<in> {1, 3, 5 :: int}"
    by simp
  from fixed_tiles_stay[OF h m] h show ?thesis
    by (intro conjI)
qed

text \<open>
  C8. Rotation of a direction set is a group action of the integers mod 4: for each of
  the sixteen direction sets \<open>d\<close> and all integers \<open>a\<close> and \<open>b\<close>, rotating by \<open>a\<close> and then
  by \<open>b\<close> is rotating by \<open>(a + b) mod 4\<close>; rotating by 0 or by 4 gives \<open>d\<close> back; rotating
  by \<open>- amount\<close>, which is what \<open>>>\<close> does, is rotating by \<open>(4 - amount) mod 4\<close>; and the
  rotation always returns a direction set: the constructor call in it never raises.
\<close>

theorem lshift_group_action:
  "(\<exists>r. lshift d a = Inr r) \<and>
   (case lshift d a of Inl e \<Rightarrow> Inl e | Inr r \<Rightarrow> lshift r b) = lshift d ((a + b) mod 4) \<and>
   lshift d 0 = Inr d \<and>
   lshift d 4 = Inr d \<and>
   lshift d (- amount) = lshift d ((4 - amount) mod 4) \<and>
   rshift d amount = lshift d ((4 - amount) mod 4)"
proof -
  have "lshift d (4 mod 4) = Inr d"
    by (simp add: lshift_zero)
  then have four: "lshift d 4 = Inr d"
    by (simp only: lshift_mod)
  show ?thesis
    using lshift_returns[where d = d and a = a] lshift_compose[where d = d and a = a and b = b]
      lshift_zero[where d = d] four lshift_neg[where d = d and amount = amount]
    by (simp add: rshift_def)
qed

text \<open>
  An instance of C8: NORTH turned by 3 and then by 2 is NORTH turned by 1, which is EAST,
  and WEST turned back by 1 is SOUTH.
\<close>

theorem lshift_group_action_witness:
  "(\<exists>r. lshift NORTH 3 = Inr r) \<and>
   (case lshift NORTH 3 of Inl e \<Rightarrow> Inl e | Inr r \<Rightarrow> lshift r 2) = Inr EAST \<and>
   rshift WEST 1 = Inr SOUTH"
proof -
  have "lshift NORTH ((3 + 2) mod 4) = Inr EAST" "lshift WEST ((4 - 1) mod 4) = Inr SOUTH"
    by (simp_all add: lshift_def Direction_new_def Direction_defs)
  then show ?thesis
    using lshift_group_action[where d = NORTH and a = 3 and b = 2 and amount = 1]
      lshift_group_action[where d = WEST and a = 0 and b = 0 and amount = 1]
    by simp
qed

text \<open>
  C9, as stated, fails: the list of loose tiles has 34 members and there are 33 cells
  with an odd coordinate, not 18 and 17; constructing the game from only 18 loose tiles
  raises \<open>IndexError\<close>, at the \<open>pop\<close> for the nineteenth cell.
\<close>

theorem Game_init_pool_counterexample:
  "length loose_tiles = 34 \<and> length movable_cells = 33 \<and>
   Game_init (take 18 loose_tiles) no_turn = Inl IndexError"
proof -
  have "isl (Game_init (take 18 loose_tiles) no_turn)"
    "projl (Game_init (take 18 loose_tiles) no_turn) = IndexError"
    by code_simp+
  then have "Game_init (take 18 loose_tiles) no_turn = Inl IndexError"
    by (cases "Game_init (take 18 loose_tiles) no_turn") simp_all
  then show ?thesis
    by (simp add: length_loose_tiles length_movable_cells)
qed

text \<open>
  C9, amended. At board construction the pool of loose tiles, whatever order the
  shuffle leaves it in and whatever quarter turns are drawn, has length exactly 34; the
  construction returns, 33 of the tiles are placed on the grid, at every cell with at
  least one odd coordinate (the turned pool from its end backwards, in row-major order),
  and exactly 1, the first of the pool, becomes the free tile. The cells with two even
  coordinates keep the sixteen fixed tiles.
\<close>

theorem Game_init_places_loose_tiles:
  assumes "mset shuffled = mset loose_tiles"
  shows "length shuffled = 34 \<and> length movable_cells = 33 \<and>
     (\<exists>g tiles. Game_init shuffled turn = Inr g \<and>
        rotate_tiles turn 0 shuffled = Inr tiles \<and> map item tiles = map item shuffled \<and>
        movable_tiles (board g) = rev (tl tiles) \<and> free g = hd tiles \<and> wf_game g \<and>
        (\<forall>i\<in>{0, 2, 4, 6}. \<forall>j\<in>{0, 2, 4, 6}.
           Some (tile_at (board g) (i, j)) = tile_at fixed_board (i, j)))"
proof -
  have "size (mset shuffled) = size (mset loose_tiles)"
    by (simp only: assms)
  then have len: "length shuffled = 34"
    by (simp add: length_loose_tiles)
  obtain tiles where tiles: "rotate_tiles turn 0 shuffled = Inr tiles"
    "length tiles = length shuffled" "map item tiles = map item shuffled"
    using rotate_tiles_returns by blast
  from tiles(2) len have "length (rev tiles) = 34" by simp
  then obtain s0 s1 s2 s3 s4 s5 s6 s7 s8 s9 s10 s11 s12 s13 s14 s15 s16 s17 s18 s19 s20 s21 s22 s23 s24 s25 s26 s27 s28 s29 s30 s31 s32 s33 where
    ss: "rev tiles = [s0, s1, s2, s3, s4, s5, s6, s7, s8, s9, s10, s11, s12, s13, s14, s15, s16, s17, s18, s19, s20, s21, s22, s23, s24, s25, s26, s27, s28, s29, s30, s31, s32, s33]"
    by (rule list34)
  then have "rev (rev tiles) = rev [s0, s1, s2, s3, s4, s5, s6, s7, s8, s9, s10, s11, s12, s13, s14, s15, s16, s17, s18, s19, s20, s21, s22, s23, s24, s25, s26, s27, s28, s29, s30, s31, s32, s33]"
    by (simp only:)
  then have t: "tiles = [s33, s32, s31, s30, s29, s28, s27, s26, s25, s24, s23, s22, s21, s20, s19, s18, s17, s16, s15, s14, s13, s12, s11, s10, s9, s8, s7, s6, s5, s4, s3, s2, s1, s0]"
    by simp
  obtain g where g: "Game_init shuffled turn = Inr g"
    "movable_tiles (board g) = [s0, s1, s2, s3, s4, s5, s6, s7, s8, s9, s10, s11, s12, s13, s14, s15, s16, s17, s18, s19, s20, s21, s22, s23, s24, s25, s26, s27, s28, s29, s30, s31, s32]"
    "free g = s33" "wf_game g"
    "\<forall>i\<in>{0, 2, 4, 6}. \<forall>j\<in>{0, 2, 4, 6}. Some (tile_at (board g) (i, j)) = tile_at fixed_board (i, j)"
    using Game_init_34[OF tiles(1)[unfolded t]] by blast
  from g(2,3) have "movable_tiles (board g) = rev (tl tiles)" "free g = hd tiles"
    by (simp_all add: t)
  with g(1,4,5) tiles(1,3) len length_movable_cells show ?thesis
    by blast
qed

text \<open>
  An instance of the amended C9: the pool reversed and no tile turned, which gives the
  sample game.
\<close>

theorem Game_init_places_loose_tiles_witness:
  "mset (rev loose_tiles) = mset loose_tiles \<and>
   length (rev loose_tiles) = 34 \<and> length movable_cells = 33 \<and>
   (\<exists>g tiles. Game_init (rev loose_tiles) no_turn = Inr g \<and>
      rotate_tiles no_turn 0 (rev loose_tiles) = Inr tiles \<and>
      map item tiles = map item (rev loose_tiles) \<and>
      movable_tiles (board g) = rev (tl tiles) \<and> free g = hd tiles \<and> wf_game g \<and>
      (\<forall>i\<in>{0, 2, 4, 6}. \<forall>j\<in>{0, 2, 4, 6}.
         Some (tile_at (board g) (i, j)) = tile_at fixed_board (i, j)))"
proof -
  have h: "mset (rev loose_tiles) = mset loose_tiles"
    by simp
  from Game_init_places_loose_tiles[OF h, of no_turn] h show ?thesis
    by (intro conjI) blast+
qed

text \<open>
  C10. A negative odd index passes the test \<open>not index % 2\<close>, and the free tile is turned.
  With direction NORTH and index -1 the column subscript wraps to column 6, whose tiles at
  rows 0, 2, 4, 6 are fixed tiles: they all move one row down, the turned free tile enters
  at row 0 and the corner tile of \<open>(6, 6)\<close> becomes the free tile; no error is raised. In
  general, for an index among -1, -3, -5, -7, a column shift slides column \<open>index + 7\<close>,
  and a row shift finds the plain list of row \<open>index + 7\<close>, which has no \<open>rotate\<close>: it
  raises \<open>AttributeError\<close> after the free tile was turned.
\<close>

theorem shift_negative_index_wraps:
  assumes "wf_game g" "index \<in> {- 1, - 3, - 5, - 7}"
  shows "\<exists>p. lshift (path (free g)) rotation = Inr p \<and>
     (\<exists>g'. shift g NORTH (- 1) rotation = Inr g' \<and>
        map (tile_at (board g')) [(0, 6), (1, 6), (2, 6), (3, 6), (4, 6), (5, 6), (6, 6)]
          = (free g)\<lparr>path := p\<rparr>
              # map (tile_at (board g)) [(0, 6), (1, 6), (2, 6), (3, 6), (4, 6), (5, 6)] \<and>
        free g' = tile_at (board g) (6, 6)) \<and>
     (if d AND EW \<noteq> 0
      then shift g d index rotation = Inl (AttributeError, g\<lparr>free := (free g)\<lparr>path := p\<rparr>\<rparr>)
      else (\<exists>g'. shift g d index rotation = Inr g' \<and>
              (map (tile_at (board g')) (line_cells d (nat (index + 7))), free g')
                = (let xs = map (tile_at (board g)) (line_cells d (nat (index + 7)));
                       f = (free g)\<lparr>path := p\<rparr>
                   in if d AND NW \<noteq> 0 then (f # butlast xs, last xs)
                      else (tl xs @ [f], hd xs)) \<and>
              (\<forall>c. in_grid c \<and> c \<notin> set (line_cells d (nat (index + 7))) \<longrightarrow>
                   tile_at (board g') c = tile_at (board g) c)))"
proof -
  obtain p where p: "lshift (path (free g)) rotation = Inr p"
    using lshift_returns by blast
  let ?f = "(free g)\<lparr>path := p\<rparr>"
  have m1: "py_index 7 (- 1) = Inr 6" "(- 1 :: int) mod 2 \<noteq> 0"
    "NORTH AND EW \<noteq> 0 \<longrightarrow> (- 1 :: int) \<in> {1, 3, 5}"
    by (simp_all add: py_index_def cardinal_flags)
  have north: "\<exists>g'. shift g NORTH (- 1) rotation = Inr g' \<and>
        map (tile_at (board g')) [(0, 6), (1, 6), (2, 6), (3, 6), (4, 6), (5, 6), (6, 6)]
          = ?f # map (tile_at (board g)) [(0, 6), (1, 6), (2, 6), (3, 6), (4, 6), (5, 6)] \<and>
        free g' = tile_at (board g) (6, 6)"
    using shift_slides[OF assms(1) m1, of rotation] p
    by (auto simp: push_def cardinal_flags line_cells_column)
  from assms(2) have idx: "py_index 7 index = Inr (nat (index + 7))" "index mod 2 \<noteq> 0"
    by (auto simp: py_index_def)
  show ?thesis
  proof (cases "d AND EW \<noteq> 0")
    case True
    from assms(1) have "wf_game (g\<lparr>free := ?f\<rparr>)" by (simp add: wf_game_def)
    from shift_row_list[OF this assms(2)] True idx(2) p
    have "shift g d index rotation = Inl (AttributeError, g\<lparr>free := ?f\<rparr>)"
      by (simp add: shift_def Let_def)
    with True p north show ?thesis by auto
  next
    case False
    then have "d AND EW \<noteq> 0 \<longrightarrow> index \<in> {1, 3, 5}" by simp
    from shift_slides[OF assms(1) idx this, of rotation] p
    obtain g' where g': "shift g d index rotation = Inr g'"
      "(map (tile_at (board g')) (line_cells d (nat (index + 7))), free g')
        = push d ?f (map (tile_at (board g)) (line_cells d (nat (index + 7))))"
      "\<forall>c. in_grid c \<and> c \<notin> set (line_cells d (nat (index + 7))) \<longrightarrow>
           tile_at (board g') c = tile_at (board g) c"
      by auto
    from g'(2) have "(map (tile_at (board g')) (line_cells d (nat (index + 7))), free g')
        = (let xs = map (tile_at (board g)) (line_cells d (nat (index + 7))); f = ?f
           in if d AND NW \<noteq> 0 then (f # butlast xs, last xs) else (tl xs @ [f], hd xs))"
      by (simp add: push_def Let_def)
    with g'(1,3) have "\<exists>g'. shift g d index rotation = Inr g' \<and>
        (map (tile_at (board g')) (line_cells d (nat (index + 7))), free g')
          = (let xs = map (tile_at (board g)) (line_cells d (nat (index + 7))); f = ?f
             in if d AND NW \<noteq> 0 then (f # butlast xs, last xs) else (tl xs @ [f], hd xs)) \<and>
        (\<forall>c. in_grid c \<and> c \<notin> set (line_cells d (nat (index + 7))) \<longrightarrow>
             tile_at (board g') c = tile_at (board g) c)"
      by blast
    with False p north show ?thesis by auto
  qed
qed

text \<open>
  An instance of C10: NORTH at index -1 on the sample game, the free tile turned once.
  The new free tile is the fixed corner tile of \<open>(6, 6)\<close>, the blue start.
\<close>

theorem shift_negative_index_wraps_witness:
  "wf_game sample_game \<and> (- 1 :: int) \<in> {- 1, - 3, - 5, - 7} \<and>
   (\<exists>p. lshift (path (free sample_game)) 1 = Inr p \<and>
     (\<exists>g'. shift sample_game NORTH (- 1) 1 = Inr g' \<and>
        map (tile_at (board g')) [(0, 6), (1, 6), (2, 6), (3, 6), (4, 6), (5, 6), (6, 6)]
          = (free sample_game)\<lparr>path := p\<rparr>
              # map (tile_at (board sample_game)) [(0, 6), (1, 6), (2, 6), (3, 6), (4, 6), (5, 6)] \<and>
        free g' = tile_at (board sample_game) (6, 6))) \<and>
   tile_at (board sample_game) (6, 6) = mk_Tile NW (Some (ColorItem BLUE))"
proof -
  have corner: "tile_at (board sample_game) (6, 6) = mk_Tile NW (Some (ColorItem BLUE))"
    by (simp add: sample_game_def sample_board_def tile_at_def)
  have h: "wf_game sample_game" "(- 1 :: int) \<in> {- 1, - 3, - 5, - 7}"
    by (simp_all add: wf_game_def wf_board_def sample_game_def sample_board_def)
  from shift_negative_index_wraps[OF h, of 1 NORTH]
  obtain p where p: "lshift (path (free sample_game)) 1 = Inr p"
    "\<exists>g'. shift sample_game NORTH (- 1) 1 = Inr g' \<and>
        map (tile_at (board g')) [(0, 6), (1, 6), (2, 6), (3, 6), (4, 6), (5, 6), (6, 6)]
          = (free sample_game)\<lparr>path := p\<rparr>
              # map (tile_at (board sample_game)) [(0, 6), (1, 6), (2, 6), (3, 6), (4, 6), (5, 6)] \<and>
        free g' = tile_at (board sample_game) (6, 6)"
  proof (elim exE conjE)
    fix p g'
    assume "lshift (path (free sample_game)) 1 = Inr p"
      "shift sample_game NORTH (- 1) 1 = Inr g'"
      "map (tile_at (board g')) [(0, 6), (1, 6), (2, 6), (3, 6), (4, 6), (5, 6), (6, 6)]
          = (free sample_game)\<lparr>path := p\<rparr>
              # map (tile_at (board sample_game)) [(0, 6), (1, 6), (2, 6), (3, 6), (4, 6), (5, 6)]"
      "free g' = tile_at (board sample_game) (6, 6)"
    then show ?thesis
      by (intro that exI[of _ g'] conjI)
  qed
  show ?thesis
    by (intro conjI h exI[of _ p] p corner)
qed

end
